theory Spec2Isabelle
  imports
    Complex_Main
    "HOL-Library.Product_Lexorder"
    "HOL-Library.Char_ord"
    "HOL-Library.List_Lexorder"
begin

chapter \<open>HankookTire SmartSensor 2.0: monitoring and recovery core\<close>

text \<open>
  A shallow embedding of the pure decision logic of the repository's monitoring
  scripts: the overall status of \<^verbatim>\<open>health-check.py\<close>, the health score, recovery
  planning, scaling and metrics parsing of \<^verbatim>\<open>self_healing_system.py\<close>, the
  deduplication of \<^verbatim>\<open>anomaly_detector.py\<close> and the data-quality score of
  \<^verbatim>\<open>backend/app/main.py\<close>.

  Conventions. Python \<^verbatim>\<open>int\<close> is \<^typ>\<open>int\<close>. Python \<^verbatim>\<open>float\<close> values are
  modelled by exact rationals (\<^typ>\<open>rat\<close>): the functions below only compare
  them or combine a handful of decimal constants, so rounding is abstracted and NaN and
  the infinities are left out. A \<^verbatim>\<open>datetime\<close> is the number of microseconds since
  the epoch (the resolution of the Python type). Enum members and record fields that
  occur in several classes are written qualified, as in the source
  (\<open>Severity.WARNING\<close>, \<open>HealthStatus.WARNING\<close>).
\<close>

section \<open>health-check.py: overall status\<close>

datatype HealthStatus = HEALTHY | WARNING | CRITICAL | UNKNOWN

text \<open>The dataclass \<^verbatim>\<open>HealthCheckResult\<close>; the free-form \<^verbatim>\<open>details\<close> dict is left out.\<close>

record HealthCheckResult =
  component :: string
  status :: HealthStatus
  message :: string
  response_time_ms :: rat
  timestamp :: int

text \<open>\<^verbatim>\<open>HealthChecker.get_overall_status\<close>, as a function of \<^verbatim>\<open>self.results\<close>.\<close>

definition get_overall_status :: "HealthCheckResult list \<Rightarrow> HealthStatus" where
  "get_overall_status results =
     (if results = [] then HealthStatus.UNKNOWN
      else
        let statuses = map status results in
        if HealthStatus.CRITICAL \<in> set statuses then HealthStatus.CRITICAL
        else if HealthStatus.WARNING \<in> set statuses then HealthStatus.WARNING
        else HealthStatus.HEALTHY)"

text \<open>
  The order of the specification, in its own words: HEALTHY < WARNING < CRITICAL.
  UNKNOWN is not part of it.
\<close>

fun spec_status_le :: "HealthStatus \<Rightarrow> HealthStatus \<Rightarrow> bool" where
  "spec_status_le HealthStatus.HEALTHY HealthStatus.HEALTHY = True"
| "spec_status_le HealthStatus.HEALTHY HealthStatus.WARNING = True"
| "spec_status_le HealthStatus.HEALTHY HealthStatus.CRITICAL = True"
| "spec_status_le HealthStatus.WARNING HealthStatus.WARNING = True"
| "spec_status_le HealthStatus.WARNING HealthStatus.CRITICAL = True"
| "spec_status_le HealthStatus.CRITICAL HealthStatus.CRITICAL = True"
| "spec_status_le _ _ = False"

lemma get_overall_status_cases:
  "results \<noteq> [] \<Longrightarrow>
     get_overall_status results =
       (if HealthStatus.CRITICAL \<in> status ` set results then HealthStatus.CRITICAL
        else if HealthStatus.WARNING \<in> status ` set results then HealthStatus.WARNING
        else HealthStatus.HEALTHY)"
  by (simp add: get_overall_status_def)

lemma spec_status_le_CRITICAL:
  "s \<noteq> HealthStatus.UNKNOWN \<Longrightarrow> spec_status_le s HealthStatus.CRITICAL"
  by (cases s) simp_all

lemma spec_status_le_WARNING:
  "s \<noteq> HealthStatus.UNKNOWN \<Longrightarrow> s \<noteq> HealthStatus.CRITICAL \<Longrightarrow>
     spec_status_le s HealthStatus.WARNING"
  by (cases s) simp_all

lemma spec_status_le_HEALTHY:
  "s \<noteq> HealthStatus.UNKNOWN \<Longrightarrow> s \<noteq> HealthStatus.CRITICAL \<Longrightarrow>
     s \<noteq> HealthStatus.WARNING \<Longrightarrow> spec_status_le s HealthStatus.HEALTHY"
  by (cases s) simp_all

lemma get_overall_status_mem:
  assumes "results \<noteq> []" and "HealthStatus.UNKNOWN \<notin> status ` set results"
  shows "get_overall_status results \<in> status ` set results"
proof -
  from assms(1) obtain r where r: "r \<in> set results"
    by (cases results) auto
  with assms(2) have "status r \<noteq> HealthStatus.UNKNOWN"
    by (metis imageI)
  then consider "status r = HealthStatus.CRITICAL" | "status r = HealthStatus.WARNING"
    | "status r = HealthStatus.HEALTHY"
    by (cases "status r") auto
  then show ?thesis
  proof cases
    case 1
    with r have "HealthStatus.CRITICAL \<in> status ` set results" by force
    then show ?thesis by (simp add: get_overall_status_cases [OF assms(1)])
  next
    case 2
    with r have "HealthStatus.WARNING \<in> status ` set results" by force
    then show ?thesis by (simp add: get_overall_status_cases [OF assms(1)])
  next
    case 3
    with r have "HealthStatus.HEALTHY \<in> status ` set results" by force
    then show ?thesis by (simp add: get_overall_status_cases [OF assms(1)])
  qed
qed

lemma get_overall_status_upper:
  assumes "results \<noteq> []" and "HealthStatus.UNKNOWN \<notin> status ` set results"
    and "s \<in> status ` set results"
  shows "spec_status_le s (get_overall_status results)"
proof -
  from assms(2,3) have s: "s \<noteq> HealthStatus.UNKNOWN" by metis
  show ?thesis
  proof (cases "HealthStatus.CRITICAL \<in> status ` set results")
    case True
    then show ?thesis
      by (simp add: get_overall_status_cases [OF assms(1)] spec_status_le_CRITICAL [OF s])
  next
    case nc: False
    with assms(3) have sc: "s \<noteq> HealthStatus.CRITICAL" by metis
    show ?thesis
    proof (cases "HealthStatus.WARNING \<in> status ` set results")
      case True
      with nc show ?thesis
        by (simp add: get_overall_status_cases [OF assms(1)] spec_status_le_WARNING [OF s sc])
    next
      case nw: False
      with assms(3) have sw: "s \<noteq> HealthStatus.WARNING" by metis
      from nc nw show ?thesis
        by (simp add: get_overall_status_cases [OF assms(1)]
            spec_status_le_HEALTHY [OF s sc sw])
    qed
  qed
qed

text \<open>
  Claim C10. The overall status is UNKNOWN exactly for the empty result list. For a
  non-empty list it is CRITICAL iff some result is CRITICAL, otherwise WARNING iff some
  result is WARNING, otherwise HEALTHY. When the component statuses are among the three
  ordered values, the overall status is their maximum under HEALTHY < WARNING < CRITICAL:
  it is one of them and every one of them is below or equal to it.
\<close>

theorem get_overall_status_is_max:
  "(get_overall_status results = HealthStatus.UNKNOWN \<longleftrightarrow> results = []) \<and>
   (results \<noteq> [] \<longrightarrow>
      (get_overall_status results = HealthStatus.CRITICAL
         \<longleftrightarrow> HealthStatus.CRITICAL \<in> status ` set results) \<and>
      (get_overall_status results = HealthStatus.WARNING
         \<longleftrightarrow> HealthStatus.CRITICAL \<notin> status ` set results \<and>
             HealthStatus.WARNING \<in> status ` set results) \<and>
      (get_overall_status results = HealthStatus.HEALTHY
         \<longleftrightarrow> HealthStatus.CRITICAL \<notin> status ` set results \<and>
             HealthStatus.WARNING \<notin> status ` set results)) \<and>
   (results \<noteq> [] \<and> HealthStatus.UNKNOWN \<notin> status ` set results \<longrightarrow>
      get_overall_status results \<in> status ` set results \<and>
      (\<forall>s \<in> status ` set results. spec_status_le s (get_overall_status results)))"
proof (intro conjI impI ballI)
  show "get_overall_status results = HealthStatus.UNKNOWN \<longleftrightarrow> results = []"
    by (simp add: get_overall_status_def Let_def)
next
  assume "results \<noteq> []"
  then show "get_overall_status results = HealthStatus.CRITICAL
      \<longleftrightarrow> HealthStatus.CRITICAL \<in> status ` set results"
    by (simp add: get_overall_status_cases)
next
  assume "results \<noteq> []"
  then show "get_overall_status results = HealthStatus.WARNING
      \<longleftrightarrow> HealthStatus.CRITICAL \<notin> status ` set results \<and>
          HealthStatus.WARNING \<in> status ` set results"
    by (simp add: get_overall_status_cases)
next
  assume "results \<noteq> []"
  then show "get_overall_status results = HealthStatus.HEALTHY
      \<longleftrightarrow> HealthStatus.CRITICAL \<notin> status ` set results \<and>
          HealthStatus.WARNING \<notin> status ` set results"
    by (simp add: get_overall_status_cases)
next
  assume "results \<noteq> [] \<and> HealthStatus.UNKNOWN \<notin> status ` set results"
  then show "get_overall_status results \<in> status ` set results"
    by (simp add: get_overall_status_mem)
next
  fix s
  assume "results \<noteq> [] \<and> HealthStatus.UNKNOWN \<notin> status ` set results"
    and "s \<in> status ` set results"
  then show "spec_status_le s (get_overall_status results)"
    by (simp add: get_overall_status_upper)
qed

theorem get_overall_status_is_max_witness:
  "get_overall_status
     [\<lparr>component = ''redis'', status = HealthStatus.HEALTHY, message = ''ok'',
        response_time_ms = 3, timestamp = 0\<rparr>,
      \<lparr>component = ''api'', status = HealthStatus.WARNING, message = ''slow'',
        response_time_ms = 2500, timestamp = 0\<rparr>] = HealthStatus.WARNING \<and>
   spec_status_le HealthStatus.HEALTHY
     (get_overall_status
       [\<lparr>component = ''redis'', status = HealthStatus.HEALTHY, message = ''ok'',
          response_time_ms = 3, timestamp = 0\<rparr>,
        \<lparr>component = ''api'', status = HealthStatus.WARNING, message = ''slow'',
          response_time_ms = 2500, timestamp = 0\<rparr>])"
  using get_overall_status_is_max
    [of "[\<lparr>component = ''redis'', status = HealthStatus.HEALTHY, message = ''ok'',
            response_time_ms = 3, timestamp = 0\<rparr>,
          \<lparr>component = ''api'', status = HealthStatus.WARNING, message = ''slow'',
            response_time_ms = 2500, timestamp = 0\<rparr>]"]
  by simp

section \<open>self_healing_system.py: data model\<close>

datatype RecoveryAction =
    RESTART_POD | SCALE_UP | SCALE_DOWN | RESTART_SERVICE | CLEAR_CACHE | ROTATE_LOGS
  | UPDATE_CONFIG | FAILOVER | CIRCUIT_BREAKER | CLEANUP_RESOURCES | REBALANCE_LOAD
  | CHAOS_TEST

datatype Severity = INFO | WARNING | ERROR | CRITICAL | EMERGENCY

text \<open>The \<^verbatim>\<open>.value\<close> of a \<^verbatim>\<open>Severity\<close> member.\<close>

fun severity_value :: "Severity \<Rightarrow> int" where
  "severity_value Severity.INFO = 1"
| "severity_value Severity.WARNING = 2"
| "severity_value Severity.ERROR = 3"
| "severity_value Severity.CRITICAL = 4"
| "severity_value Severity.EMERGENCY = 5"

text \<open>
  The dataclass \<^verbatim>\<open>HealthIssue\<close>. The free-text \<^verbatim>\<open>description\<close> and the
  \<^verbatim>\<open>metrics\<close> snapshot (a free-form dict) are left out: no decision below reads them. \<^verbatim>\<open>recovery_actions\<close> defaults to
  \<^verbatim>\<open>None\<close>, hence the option; \<^verbatim>\<open>cooldown_period\<close> is in seconds.
\<close>

record HealthIssue =
  component :: string
  issue_type :: string
  severity :: Severity
  timestamp :: int
  auto_recoverable :: bool
  recovery_actions :: "RecoveryAction list option"
  cooldown_period :: int

section \<open>self_healing_system.py: system health score\<close>

text \<open>The table \<^verbatim>\<open>severity_weights\<close> of \<^verbatim>\<open>update_system_status\<close>.\<close>

fun severity_weights :: "Severity \<Rightarrow> rat" where
  "severity_weights Severity.INFO = 1 / 10"
| "severity_weights Severity.WARNING = 3 / 10"
| "severity_weights Severity.ERROR = 6 / 10"
| "severity_weights Severity.CRITICAL = 8 / 10"
| "severity_weights Severity.EMERGENCY = 1"

text \<open>
  The value \<^verbatim>\<open>health_score\<close> that \<^verbatim>\<open>update_system_status\<close> computes from the
  active issues and publishes (the gauge, the Redis record and the status label are
  outputs of this value).
\<close>

definition total_impact :: "HealthIssue list \<Rightarrow> rat" where
  "total_impact health_issues =
     sum_list (map (\<lambda>issue. severity_weights (HealthIssue.severity issue)) health_issues)"

definition health_score :: "HealthIssue list \<Rightarrow> rat" where
  "health_score health_issues =
     (if health_issues = [] then 100
      else max 0 (100 - total_impact health_issues * 10))"

lemma severity_weights_nonneg: "0 \<le> severity_weights s"
  by (cases s) simp_all

lemma total_impact_nonneg: "0 \<le> total_impact health_issues"
  unfolding total_impact_def
  by (induction health_issues) (simp_all add: severity_weights_nonneg)

lemma total_impact_Cons:
  "total_impact (issue # rest) =
     severity_weights (HealthIssue.severity issue) + total_impact rest"
  by (simp add: total_impact_def)

lemma total_impact_EMERGENCY:
  "issue \<in> set health_issues \<Longrightarrow> HealthIssue.severity issue = Severity.EMERGENCY \<Longrightarrow>
     1 \<le> total_impact health_issues"
proof (induction health_issues)
  case Nil
  then show ?case by simp
next
  case (Cons a rest)
  show ?case
  proof (cases "issue = a")
    case True
    with Cons.prems(2) total_impact_nonneg [of rest] show ?thesis
      by (simp add: total_impact_Cons)
  next
    case False
    with Cons have "1 \<le> total_impact rest" by simp
    with severity_weights_nonneg [of "HealthIssue.severity a"] show ?thesis
      by (simp add: total_impact_Cons)
  qed
qed

text \<open>
  Claim C3, as amended. The health score lies in [0, 100] and is exactly 100 with no
  active issue. An Emergency issue does not force the score to 0: it weighs 1.0 and so
  takes 10 points, like every issue takes ten times its weight; the score is at most 90
  with an Emergency issue present and reaches the floor 0 once the weights sum to 10.
\<close>

theorem health_score_bounds:
  "0 \<le> health_score health_issues \<and> health_score health_issues \<le> 100 \<and>
   health_score [] = 100 \<and>
   (health_issues \<noteq> [] \<longrightarrow>
      health_score health_issues = max 0 (100 - 10 * total_impact health_issues)) \<and>
   (Severity.EMERGENCY \<in> HealthIssue.severity ` set health_issues \<longrightarrow>
      health_score health_issues \<le> 90) \<and>
   (10 \<le> total_impact health_issues \<longrightarrow> health_score health_issues = 0)"
proof (intro conjI impI)
  show "0 \<le> health_score health_issues"
    by (simp add: health_score_def)
  show "health_score health_issues \<le> 100"
    using total_impact_nonneg [of health_issues] by (simp add: health_score_def)
  show "health_score [] = 100"
    by (simp add: health_score_def)
next
  assume "health_issues \<noteq> []"
  then show "health_score health_issues = max 0 (100 - 10 * total_impact health_issues)"
    by (simp add: health_score_def mult.commute)
next
  assume "Severity.EMERGENCY \<in> HealthIssue.severity ` set health_issues"
  then obtain issue where "issue \<in> set health_issues"
    and "HealthIssue.severity issue = Severity.EMERGENCY"
    by (metis imageE)
  then have "1 \<le> total_impact health_issues"
    by (rule total_impact_EMERGENCY)
  moreover from \<open>issue \<in> set health_issues\<close> have "health_issues \<noteq> []"
    by (cases health_issues) simp_all
  ultimately show "health_score health_issues \<le> 90"
    by (simp add: health_score_def)
next
  assume "10 \<le> total_impact health_issues"
  moreover from this have "health_issues \<noteq> []"
    by (cases health_issues) (simp_all add: total_impact_def)
  ultimately show "health_score health_issues = 0"
    by (simp add: health_score_def)
qed

theorem health_score_bounds_witness:
  "health_score
     [\<lparr>component = ''database'', issue_type = ''database_deadlocks'',
        severity = Severity.EMERGENCY, timestamp = 0,
        auto_recoverable = True, recovery_actions = Some [RESTART_SERVICE],
        cooldown_period = 600\<rparr>] \<le> 90"
  (is "health_score ?issues \<le> 90")
proof -
  have "Severity.EMERGENCY \<in> HealthIssue.severity ` set ?issues"
    by simp
  with health_score_bounds [of ?issues] show ?thesis
    by blast
qed

text \<open>
  The claim as stated fails: one Emergency issue alone gives the score 90, not 0.
\<close>

theorem health_score_emergency_counterexample:
  "health_score
     [\<lparr>component = ''database'', issue_type = ''database_deadlocks'',
        severity = Severity.EMERGENCY, timestamp = 0,
        auto_recoverable = True, recovery_actions = Some [RESTART_SERVICE],
        cooldown_period = 600\<rparr>] = 90 \<and>
   health_score
     [\<lparr>component = ''database'', issue_type = ''database_deadlocks'',
        severity = Severity.EMERGENCY, timestamp = 0,
        auto_recoverable = True, recovery_actions = Some [RESTART_SERVICE],
        cooldown_period = 600\<rparr>] \<noteq> 0"
  by (simp add: health_score_def total_impact_def)

section \<open>self_healing_system.py: recovery planning and the cooldown ledger\<close>

text \<open>\<^verbatim>\<open>timedelta(seconds=s)\<close>, in microseconds.\<close>

definition timedelta_seconds :: "int \<Rightarrow> int" where
  "timedelta_seconds s = s * 1000000"

text \<open>The ledger key \<^verbatim>\<open>f"{issue.component}_{issue.issue_type}"\<close>.\<close>

definition cooldown_key :: "HealthIssue \<Rightarrow> string" where
  "cooldown_key issue = HealthIssue.component issue @ ''_'' @ issue_type issue"

text \<open>
  \<^verbatim>\<open>self.action_cooldowns\<close>: a dict from ledger key to the time of the last admitted
  action. The plan is the list of (issue, action) pairs.
\<close>

type_synonym action_cooldowns = "string \<rightharpoonup> int"

type_synonym recovery_plan = "(HealthIssue \<times> RecoveryAction) list"

text \<open>
  The cooldown test of the loop body: the key has an entry and less than the checked
  issue's own \<^verbatim>\<open>cooldown_period\<close> has passed since it.
\<close>

definition in_cooldown :: "int \<Rightarrow> action_cooldowns \<Rightarrow> HealthIssue \<Rightarrow> bool" where
  "in_cooldown now cooldowns issue =
     (case cooldowns (cooldown_key issue) of
        None \<Rightarrow> False
      | Some last_action_time \<Rightarrow>
          now - last_action_time < timedelta_seconds (cooldown_period issue))"

text \<open>
  One iteration of the loop of \<^verbatim>\<open>analyze_and_plan_recovery\<close> on the pair of the
  plan built so far and the ledger; \<open>now\<close> is what \<^verbatim>\<open>datetime.now()\<close> reads in
  this iteration. \<^verbatim>\<open>if issue.recovery_actions:\<close> is false for \<^verbatim>\<open>None\<close> and for the
  empty list.
\<close>

fun plan_issue ::
  "int \<Rightarrow> HealthIssue \<Rightarrow> recovery_plan \<times> action_cooldowns \<Rightarrow> recovery_plan \<times> action_cooldowns"
where
  "plan_issue now issue (recovery_plan, cooldowns) =
     (if \<not> auto_recoverable issue then (recovery_plan, cooldowns)
      else if in_cooldown now cooldowns issue then (recovery_plan, cooldowns)
      else
        (case recovery_actions issue of
           None \<Rightarrow> (recovery_plan, cooldowns)
         | Some [] \<Rightarrow> (recovery_plan, cooldowns)
         | Some (selected_action # _) \<Rightarrow>
             (recovery_plan @ [(issue, selected_action)],
              cooldowns(cooldown_key issue \<mapsto> now))))"

text \<open>
  \<^verbatim>\<open>sorted(health_issues, key=lambda x: x.severity.value, reverse=True)\<close>: Python's
  sort is stable also with \<^verbatim>\<open>reverse=True\<close>, which is the stable ascending sort on
  the negated key.
\<close>

definition sorted_issues :: "HealthIssue list \<Rightarrow> HealthIssue list" where
  "sorted_issues health_issues =
     sort_key (\<lambda>x. - severity_value (HealthIssue.severity x)) health_issues"

text \<open>
  \<^verbatim>\<open>SelfHealingSystem.analyze_and_plan_recovery\<close>: the plan it returns and the ledger
  it leaves in \<^verbatim>\<open>self.action_cooldowns\<close>. One call runs at the instant \<open>now\<close>.
\<close>

definition analyze_and_plan_recovery ::
  "int \<Rightarrow> HealthIssue list \<Rightarrow> action_cooldowns \<Rightarrow> recovery_plan \<times> action_cooldowns"
where
  "analyze_and_plan_recovery now health_issues cooldowns =
     fold (plan_issue now) (sorted_issues health_issues) ([], cooldowns)"

text \<open>
  The issue list of \<^verbatim>\<open>check_sensor_connectivity\<close>. The argument is the answer of the
  status endpoint: \<open>None\<close> when the request raises, otherwise the HTTP status with
  \<^verbatim>\<open>total_sensors\<close> and \<^verbatim>\<open>offline_sensors\<close> (0 when absent). The issue keeps the
  default \<^verbatim>\<open>cooldown_period\<close> of 300.
\<close>

definition check_sensor_connectivity ::
  "int \<Rightarrow> (int \<times> int \<times> int) option \<Rightarrow> HealthIssue list"
where
  "check_sensor_connectivity now response =
     (case response of
        None \<Rightarrow> []
      | Some (http_status, total_sensors, offline_sensors) \<Rightarrow>
          if http_status = 200 \<and> total_sensors > 0 then
            let offline_rate = (of_int offline_sensors :: rat) / of_int total_sensors in
            if offline_rate > 3 / 10 then
              [\<lparr>component = ''sensor-network'', issue_type = ''high_offline_rate'',
                severity = (if offline_rate > 1 / 2 then Severity.CRITICAL
                            else Severity.WARNING),
                timestamp = now, auto_recoverable = False,
                recovery_actions = Some [RESTART_SERVICE, FAILOVER],
                cooldown_period = 300\<rparr>]
            else []
          else [])"

subsection \<open>Issues that are not auto-recoverable\<close>

lemma plan_issue_not_recoverable:
  "\<not> auto_recoverable issue \<Longrightarrow> plan_issue now issue st = st"
  by (cases st) simp

lemma fold_plan_issue_filter:
  "fold (plan_issue now) (filter auto_recoverable issues) st =
   fold (plan_issue now) issues st"
  by (induction issues arbitrary: st) (simp_all add: plan_issue_not_recoverable)

lemma sorted_issues_filter:
  "filter P (sorted_issues issues) = sorted_issues (filter P issues)"
  by (simp add: sorted_issues_def filter_sort)

lemma set_sorted_issues: "set (sorted_issues issues) = set issues"
  by (simp add: sorted_issues_def)

lemma analyze_filter_recoverable:
  "analyze_and_plan_recovery now (filter auto_recoverable issues) cooldowns =
   analyze_and_plan_recovery now issues cooldowns"
  unfolding analyze_and_plan_recovery_def
  by (simp add: sorted_issues_filter [symmetric] fold_plan_issue_filter)

lemma plan_issue_plan_mem:
  assumes "plan_issue now issue (plan, cooldowns) = (plan', cooldowns')"
    and "(i, a) \<in> set plan'"
  shows "(i, a) \<in> set plan \<or> (i = issue \<and> auto_recoverable i)"
  using assms by (auto split: if_splits option.splits list.splits)

lemma fold_plan_issue_plan_mem:
  "fold (plan_issue now) issues (plan, cooldowns) = (plan', cooldowns') \<Longrightarrow>
   (i, a) \<in> set plan' \<Longrightarrow>
   (i, a) \<in> set plan \<or> (i \<in> set issues \<and> auto_recoverable i)"
proof (induction issues arbitrary: plan cooldowns)
  case Nil
  then show ?case by simp
next
  case (Cons x xs)
  obtain p1 c1 where step: "plan_issue now x (plan, cooldowns) = (p1, c1)"
    by (cases "plan_issue now x (plan, cooldowns)")
  with Cons.prems(1) have "fold (plan_issue now) xs (p1, c1) = (plan', cooldowns')"
    by simp
  from Cons.IH [OF this Cons.prems(2)]
  have "(i, a) \<in> set p1 \<or> (i \<in> set xs \<and> auto_recoverable i)" .
  then show ?case
  proof
    assume "(i, a) \<in> set p1"
    from plan_issue_plan_mem [OF step this] show ?thesis by auto
  next
    assume "i \<in> set xs \<and> auto_recoverable i"
    then show ?thesis by simp
  qed
qed

lemma analyze_plan_recoverable:
  assumes "analyze_and_plan_recovery now issues cooldowns = (plan, cooldowns')"
    and "(i, a) \<in> set plan"
  shows "i \<in> set issues \<and> auto_recoverable i"
  using fold_plan_issue_plan_mem [of now "sorted_issues issues" "[]" cooldowns plan cooldowns' i a]
    assms
  by (simp add: analyze_and_plan_recovery_def set_sorted_issues)

lemma analyze_none_recoverable:
  assumes "\<forall>i \<in> set issues. \<not> auto_recoverable i"
  shows "analyze_and_plan_recovery now issues cooldowns = ([], cooldowns)"
proof -
  from assms have "filter auto_recoverable issues = []"
    by (simp add: filter_empty_conv)
  with analyze_filter_recoverable [of now issues cooldowns] show ?thesis
    by (simp add: analyze_and_plan_recovery_def sorted_issues_def)
qed

lemma check_sensor_connectivity_not_recoverable:
  "i \<in> set (check_sensor_connectivity t response) \<Longrightarrow> \<not> auto_recoverable i"
  by (auto simp: check_sensor_connectivity_def Let_def split: option.splits if_splits)

lemma filter_check_sensor_connectivity:
  "filter auto_recoverable (check_sensor_connectivity t response) = []"
  by (simp add: filter_empty_conv check_sensor_connectivity_not_recoverable)

lemma plan_issue_ledger:
  assumes "plan_issue now issue (plan, cooldowns) = (plan', cooldowns')"
  shows "set plan \<subseteq> set plan' \<and>
    (\<forall>k. cooldowns' k = cooldowns k \<or>
       (cooldowns' k = Some now \<and> (\<exists>a. (issue, a) \<in> set plan') \<and> cooldown_key issue = k))"
  using assms by (auto split: if_splits option.splits list.splits)

lemma fold_plan_issue_ledger:
  "fold (plan_issue now) issues (plan, cooldowns) = (plan', cooldowns') \<Longrightarrow>
   set plan \<subseteq> set plan' \<and>
   (\<forall>k. cooldowns' k = cooldowns k \<or>
      (cooldowns' k = Some now \<and> (\<exists>i a. (i, a) \<in> set plan' \<and> cooldown_key i = k)))"
proof (induction issues arbitrary: plan cooldowns)
  case Nil
  then show ?case by simp
next
  case (Cons x xs)
  obtain p1 c1 where step: "plan_issue now x (plan, cooldowns) = (p1, c1)"
    by (cases "plan_issue now x (plan, cooldowns)")
  with Cons.prems have rest: "fold (plan_issue now) xs (p1, c1) = (plan', cooldowns')"
    by simp
  note a = plan_issue_ledger [OF step]
  note b = Cons.IH [OF rest]
  from a b have sub: "set plan \<subseteq> set plan'" by blast
  have "cooldowns' k = cooldowns k \<or>
      (cooldowns' k = Some now \<and> (\<exists>i a. (i, a) \<in> set plan' \<and> cooldown_key i = k))" for k
  proof (cases "cooldowns' k = c1 k")
    case True
    from a have "c1 k = cooldowns k \<or>
       (c1 k = Some now \<and> (\<exists>a. (x, a) \<in> set p1) \<and> cooldown_key x = k)"
      by blast
    with True b show ?thesis by auto
  next
    case False
    with b show ?thesis by blast
  qed
  with sub show ?case by blast
qed

text \<open>
  Claim C2. An issue with \<^verbatim>\<open>auto_recoverable = False\<close> never contributes a pair to
  the recovery plan: every issue of the plan is an auto-recoverable issue of the input.
  Such issues are skipped without any effect: the plan and the ledger are the ones
  obtained from the input without them, the ledger changes only at the key of an issue
  of the plan, a list with no auto-recoverable issue yields the empty plan and the
  ledger unchanged, and the issues of \<^verbatim>\<open>check_sensor_connectivity\<close> (which are
  created not auto-recoverable) never change the result.
\<close>

theorem non_recoverable_never_planned:
  assumes "analyze_and_plan_recovery now health_issues cooldowns = (plan, cooldowns')"
  shows "(\<forall>(i, a) \<in> set plan. i \<in> set health_issues \<and> auto_recoverable i) \<and>
    analyze_and_plan_recovery now (filter auto_recoverable health_issues) cooldowns
      = (plan, cooldowns') \<and>
    (\<forall>k. cooldowns' k \<noteq> cooldowns k \<longrightarrow>
       (\<exists>(i, a) \<in> set plan. auto_recoverable i \<and> cooldown_key i = k)) \<and>
    ((\<forall>i \<in> set health_issues. \<not> auto_recoverable i) \<longrightarrow>
       plan = [] \<and> cooldowns' = cooldowns) \<and>
    analyze_and_plan_recovery now
      (check_sensor_connectivity t response @ health_issues) cooldowns = (plan, cooldowns')"
proof (intro conjI)
  show "\<forall>(i, a) \<in> set plan. i \<in> set health_issues \<and> auto_recoverable i"
    using analyze_plan_recoverable [OF assms] by blast
  show "analyze_and_plan_recovery now (filter auto_recoverable health_issues) cooldowns
      = (plan, cooldowns')"
    using assms by (simp add: analyze_filter_recoverable)
  show "\<forall>k. cooldowns' k \<noteq> cooldowns k \<longrightarrow>
       (\<exists>(i, a) \<in> set plan. auto_recoverable i \<and> cooldown_key i = k)"
  proof (intro allI impI)
    fix k
    assume "cooldowns' k \<noteq> cooldowns k"
    moreover from assms
    have "fold (plan_issue now) (sorted_issues health_issues) ([], cooldowns)
        = (plan, cooldowns')"
      by (simp add: analyze_and_plan_recovery_def)
    note fold_plan_issue_ledger [OF this]
    ultimately obtain i a where ia: "(i, a) \<in> set plan" and k: "cooldown_key i = k"
      by blast
    from analyze_plan_recoverable [OF assms ia] have "auto_recoverable i" by simp
    with ia k show "\<exists>(i, a) \<in> set plan. auto_recoverable i \<and> cooldown_key i = k"
      by blast
  qed
  show "(\<forall>i \<in> set health_issues. \<not> auto_recoverable i) \<longrightarrow>
       plan = [] \<and> cooldowns' = cooldowns"
    using assms analyze_none_recoverable [of health_issues now cooldowns] by auto
  have "filter auto_recoverable (check_sensor_connectivity t response @ health_issues)
      = filter auto_recoverable health_issues"
    by (simp add: filter_check_sensor_connectivity)
  then have "analyze_and_plan_recovery now
      (check_sensor_connectivity t response @ health_issues) cooldowns
      = analyze_and_plan_recovery now health_issues cooldowns"
    by (metis analyze_filter_recoverable)
  with assms show "analyze_and_plan_recovery now
      (check_sensor_connectivity t response @ health_issues) cooldowns = (plan, cooldowns')"
    by simp
qed

theorem non_recoverable_never_planned_witness:
  "analyze_and_plan_recovery 1000000
     (check_sensor_connectivity 0 (Some (200, 10, 6)) @
      [\<lparr>component = ''redis'', issue_type = ''redis_memory_high'',
         severity = Severity.WARNING, timestamp = 0, auto_recoverable = True,
         recovery_actions = Some [CLEAR_CACHE, RESTART_SERVICE], cooldown_period = 300\<rparr>])
     Map.empty
   = ([(\<lparr>component = ''redis'', issue_type = ''redis_memory_high'',
          severity = Severity.WARNING, timestamp = 0, auto_recoverable = True,
          recovery_actions = Some [CLEAR_CACHE, RESTART_SERVICE], cooldown_period = 300\<rparr>,
        CLEAR_CACHE)],
      [''redis_redis_memory_high'' \<mapsto> 1000000])"
  (is "analyze_and_plan_recovery ?now (?sensor @ ?issues) Map.empty = (?plan, ?ledger)")
proof -
  have "analyze_and_plan_recovery ?now ?issues Map.empty = (?plan, ?ledger)"
    by (simp add: analyze_and_plan_recovery_def sorted_issues_def in_cooldown_def
        cooldown_key_def)
  from non_recoverable_never_planned [OF this, of 0 "Some (200, 10, 6)"]
  show ?thesis by blast
qed

subsection \<open>The cooldown ledger over successive planning calls\<close>



















subsection \<open>The cooldown of the issues that the health checks build\<close>








subsection \<open>The window between two admissions of one key\<close>







section \<open>self_healing_system.py: scaling\<close>

subsection \<open>The orchestrator, as the scaling code sees it\<close>

text \<open>
  The part of the Kubernetes apps API that scaling uses: the deployments of the
  namespace with their \<^verbatim>\<open>spec.replicas\<close> (\<open>None\<close> when the field is unset), and
  the set of deployments whose patch the API refuses. Reading a deployment that does not
  exist and a refused patch raise \<^verbatim>\<open>ApiException\<close>; arithmetic on an unset replica
  count raises \<^verbatim>\<open>TypeError\<close>.
\<close>

datatype py_exception = ApiException | TypeError | ValueError | IndexError




subsection \<open>The deployment a component names\<close>



subsection \<open>Reactive scaling\<close>



subsection \<open>Proactive scaling\<close>
















section \<open>self_healing_system.py: executing a recovery action\<close>

text \<open>The dataclass \<^verbatim>\<open>RecoveryResult\<close> (\<^verbatim>\<open>side_effects\<close> is never set and left out).\<close>

record RecoveryResult =
  action :: RecoveryAction
  target :: string
  success :: bool
  duration :: rat
  message :: string
  timestamp :: int















section \<open>backend/app/main.py: data quality of a raw reading\<close>

text \<open>
  A raw reading is the dict of one sensor: channel name to value. The normalisers clip
  a value to the physical range of its channel.
\<close>

definition normalize_temperature :: "rat \<Rightarrow> rat" where
  "normalize_temperature v = max (- 40) (min 85 v)"

definition normalize_humidity :: "rat \<Rightarrow> rat" where
  "normalize_humidity v = max 0 (min 100 v)"

definition normalize_pressure :: "rat \<Rightarrow> rat" where
  "normalize_pressure v = max 800 (min 1200 v)"

definition normalize_acceleration :: "rat \<Rightarrow> rat" where
  "normalize_acceleration v = max 0 (min 5 v)"

text \<open>\<^verbatim>\<open>data.get(key, default)\<close>.\<close>

definition dict_get :: "(string \<rightharpoonup> rat) \<Rightarrow> string \<Rightarrow> rat \<Rightarrow> rat" where
  "dict_get data k dflt = (case data k of None \<Rightarrow> dflt | Some v \<Rightarrow> v)"

text \<open>
  \<^verbatim>\<open>calculate_data_quality\<close>, statement by statement: 0.25 off per missing required
  field, then 0.1 off for a temperature outside [-40, 85] and 0.1 off for a humidity
  outside [0, 100] (an absent value counts as 0), floored at 0.
\<close>

definition calculate_data_quality :: "(string \<rightharpoonup> rat) \<Rightarrow> rat" where
  "calculate_data_quality data =
     (let quality_score = 1;
          required_fields = [''temperature'', ''humidity'', ''pressure'', ''acceleration''];
          missing_fields = length (filter (\<lambda>field. data field = None) required_fields);
          quality_score = quality_score - of_nat missing_fields * (1 / 4);
          quality_score =
            (if dict_get data ''temperature'' 0 < - 40 \<or> dict_get data ''temperature'' 0 > 85
             then quality_score - 1 / 10 else quality_score);
          quality_score =
            (if dict_get data ''humidity'' 0 < 0 \<or> dict_get data ''humidity'' 0 > 100
             then quality_score - 1 / 10 else quality_score)
      in max 0 quality_score)"

text \<open>
  The score of the specification, in its own words: 0.25 off per missing required
  channel and 0.1 off per clipped channel, a channel being clipped when its value lies
  outside its bound, that is when its normaliser changes it.
\<close>

definition missing_channels :: "(string \<rightharpoonup> rat) \<Rightarrow> nat" where
  "missing_channels data =
     length (filter (\<lambda>field. data field = None)
       [''temperature'', ''humidity'', ''pressure'', ''acceleration''])"

definition clipped :: "(string \<rightharpoonup> rat) \<Rightarrow> string \<Rightarrow> (rat \<Rightarrow> rat) \<Rightarrow> nat" where
  "clipped data channel clip =
     (case data channel of
        None \<Rightarrow> 0
      | Some v \<Rightarrow> if clip v \<noteq> v then 1 else 0)"

definition spec_data_quality :: "(string \<rightharpoonup> rat) \<Rightarrow> rat" where
  "spec_data_quality data =
     max 0 (1 - (1 / 4) * of_nat (missing_channels data)
              - (1 / 10) * of_nat (clipped data ''temperature'' normalize_temperature
                                   + clipped data ''humidity'' normalize_humidity
                                   + clipped data ''pressure'' normalize_pressure
                                   + clipped data ''acceleration'' normalize_acceleration))"

lemma clipped_temperature:
  "clipped data ''temperature'' normalize_temperature =
     (if dict_get data ''temperature'' 0 < - 40 \<or> dict_get data ''temperature'' 0 > 85
      then 1 else 0)"
  by (auto simp: clipped_def dict_get_def normalize_temperature_def min_def max_def
      split: option.splits)

lemma clipped_humidity:
  "clipped data ''humidity'' normalize_humidity =
     (if dict_get data ''humidity'' 0 < 0 \<or> dict_get data ''humidity'' 0 > 100
      then 1 else 0)"
  by (auto simp: clipped_def dict_get_def normalize_humidity_def min_def max_def
      split: option.splits)

lemma calculate_data_quality_unfold:
  "calculate_data_quality data =
     max 0 ((1 - of_nat (missing_channels data) * (1 / 4))
       - (if dict_get data ''temperature'' 0 < - 40 \<or> dict_get data ''temperature'' 0 > 85
          then 1 / 10 else 0)
       - (if dict_get data ''humidity'' 0 < 0 \<or> dict_get data ''humidity'' 0 > 100
          then 1 / 10 else 0))"
proof -
  define q where "q = 1 - rat_of_nat (missing_channels data) * (1 / 4)"
  define t where
    "t \<longleftrightarrow> dict_get data ''temperature'' 0 < - 40 \<or> dict_get data ''temperature'' 0 > 85"
  define h where
    "h \<longleftrightarrow> dict_get data ''humidity'' 0 < 0 \<or> dict_get data ''humidity'' 0 > 100"
  have "calculate_data_quality data =
      max 0 (if h then (if t then q - 1 / 10 else q) - 1 / 10
             else (if t then q - 1 / 10 else q))"
    unfolding calculate_data_quality_def missing_channels_def Let_def q_def t_def h_def
    by (rule refl)
  also have "\<dots> = max 0 (q - (if t then 1 / 10 else 0) - (if h then 1 / 10 else 0))"
    by (cases t; cases h) simp_all
  finally show ?thesis
    unfolding q_def t_def h_def .
qed

lemma calculate_data_quality_formula:
  "calculate_data_quality data =
     max 0 (1 - (1 / 4) * of_nat (missing_channels data)
              - (1 / 10) * of_nat (clipped data ''temperature'' normalize_temperature
                                   + clipped data ''humidity'' normalize_humidity))"
proof -
  define t where
    "t \<longleftrightarrow> dict_get data ''temperature'' 0 < - 40 \<or> dict_get data ''temperature'' 0 > 85"
  define h where
    "h \<longleftrightarrow> dict_get data ''humidity'' 0 < 0 \<or> dict_get data ''humidity'' 0 > 100"
  have ct: "clipped data ''temperature'' normalize_temperature = (if t then 1 else 0)"
    unfolding t_def by (rule clipped_temperature)
  have ch: "clipped data ''humidity'' normalize_humidity = (if h then 1 else 0)"
    unfolding h_def by (rule clipped_humidity)
  have "calculate_data_quality data =
      max 0 ((1 - of_nat (missing_channels data) * (1 / 4))
        - (if t then 1 / 10 else 0) - (if h then 1 / 10 else 0))"
    unfolding t_def h_def by (rule calculate_data_quality_unfold)
  also have "\<dots> = max 0 (1 - (1 / 4) * of_nat (missing_channels data)
      - (1 / 10) * of_nat ((if t then 1 else 0) + (if h then 1 else 0)))"
    by (cases t; cases h) simp_all
  finally show ?thesis
    unfolding ct ch .
qed

lemma missing_channels_upd_present:
  "data channel \<noteq> None \<Longrightarrow> missing_channels (data(channel \<mapsto> v)) = missing_channels data"
  by (auto simp: missing_channels_def)

lemma clipped_upd_other:
  "channel \<noteq> other \<Longrightarrow>
     clipped (data(other \<mapsto> v)) channel clip = clipped data channel clip"
  by (simp add: clipped_def)

text \<open>
  Claim C6, as amended. The data-quality score is
  max(0, 1 - 0.25 * (missing required channels) - 0.1 * (clipped channels among
  temperature and humidity)), the required channels being temperature, humidity,
  pressure and acceleration; it lies in [0, 1]. Pressure and acceleration count only
  by their presence: the value of a present pressure or acceleration, in or out of its
  bound, does not change the score.
\<close>

theorem calculate_data_quality_spec:
  "calculate_data_quality data =
     max 0 (1 - (1 / 4) * of_nat (missing_channels data)
              - (1 / 10) * of_nat (clipped data ''temperature'' normalize_temperature
                                   + clipped data ''humidity'' normalize_humidity)) \<and>
   0 \<le> calculate_data_quality data \<and> calculate_data_quality data \<le> 1 \<and>
   (channel \<in> {''pressure'', ''acceleration''} \<and> data channel \<noteq> None \<longrightarrow>
      calculate_data_quality (data(channel \<mapsto> v)) = calculate_data_quality data)"
proof (intro conjI impI)
  show "calculate_data_quality data =
     max 0 (1 - (1 / 4) * of_nat (missing_channels data)
              - (1 / 10) * of_nat (clipped data ''temperature'' normalize_temperature
                                   + clipped data ''humidity'' normalize_humidity))"
    by (rule calculate_data_quality_formula)
  show "0 \<le> calculate_data_quality data"
    by (simp add: calculate_data_quality_formula)
  show "calculate_data_quality data \<le> 1"
    by (simp add: calculate_data_quality_formula)
next
  assume a: "channel \<in> {''pressure'', ''acceleration''} \<and> data channel \<noteq> None"
  then have t: "''temperature'' \<noteq> channel" and h: "''humidity'' \<noteq> channel"
    by auto
  from a have "missing_channels (data(channel \<mapsto> v)) = missing_channels data"
    by (simp add: missing_channels_upd_present)
  then show "calculate_data_quality (data(channel \<mapsto> v)) = calculate_data_quality data"
    by (simp only: calculate_data_quality_formula
        clipped_upd_other [OF t] clipped_upd_other [OF h])
qed

theorem calculate_data_quality_spec_witness:
  "calculate_data_quality
     [''temperature'' \<mapsto> 20, ''humidity'' \<mapsto> 50, ''pressure'' \<mapsto> 1013,
      ''acceleration'' \<mapsto> 1, ''pressure'' \<mapsto> 5000]
   = calculate_data_quality
       [''temperature'' \<mapsto> 20, ''humidity'' \<mapsto> 50, ''pressure'' \<mapsto> 1013,
        ''acceleration'' \<mapsto> 1]"
  using calculate_data_quality_spec
    [of "[''temperature'' \<mapsto> 20, ''humidity'' \<mapsto> 50, ''pressure'' \<mapsto> 1013,
          ''acceleration'' \<mapsto> 1]" "''pressure''" 5000]
  by simp

text \<open>
  The claim as stated fails: a reading with all four channels and a pressure of
  5000 hPa, far outside [800, 1200], scores 1.0 where the formula of the claim gives 0.9.
\<close>

theorem data_quality_pressure_counterexample:
  "calculate_data_quality
     [''temperature'' \<mapsto> 20, ''humidity'' \<mapsto> 50, ''pressure'' \<mapsto> 5000,
      ''acceleration'' \<mapsto> 1] = 1 \<and>
   spec_data_quality
     [''temperature'' \<mapsto> 20, ''humidity'' \<mapsto> 50, ''pressure'' \<mapsto> 5000,
      ''acceleration'' \<mapsto> 1] = 9 / 10"
  by (simp add: calculate_data_quality_def spec_data_quality_def missing_channels_def
      clipped_def dict_get_def normalize_temperature_def normalize_humidity_def
      normalize_pressure_def normalize_acceleration_def Let_def)

section \<open>self_healing_system.py: parsing a metrics scrape\<close>

subsection \<open>String operations\<close>

text \<open>
  Metrics text is taken as ASCII, one \<^typ>\<open>char\<close> per character. The whitespace
  that \<^verbatim>\<open>str.strip()\<close> removes is then tab, line feed, vertical tab, form feed,
  carriage return, the separators 0x1C to 0x1F and the space.
\<close>

definition py_isspace :: "char \<Rightarrow> bool" where
  "py_isspace c \<longleftrightarrow>
     c \<in> {CHR 0x09, CHR 0x0A, CHR 0x0B, CHR 0x0C, CHR 0x0D,
          CHR 0x1C, CHR 0x1D, CHR 0x1E, CHR 0x1F, CHR 0x20}"

text \<open>\<^verbatim>\<open>not line.strip()\<close>: nothing but whitespace.\<close>

definition blank :: "string \<Rightarrow> bool" where
  "blank line = list_all py_isspace line"

text \<open>\<^verbatim>\<open>line.startswith('#')\<close>.\<close>

definition startswith_hash :: "string \<Rightarrow> bool" where
  "startswith_hash line = (case line of [] \<Rightarrow> False | c # _ \<Rightarrow> c = CHR ''#'')"

text \<open>
  \<^verbatim>\<open>metrics_text.split('\n')\<close>: the pieces between line feeds, one more than there
  are line feeds (the empty text gives one empty line).
\<close>

fun split_newline :: "string \<Rightarrow> string list" where
  "split_newline [] = [[]]"
| "split_newline (c # cs) =
     (if c = CHR 0x0A then [] # split_newline cs
      else (case split_newline cs of
              [] \<Rightarrow> [[c]]
            | l # ls \<Rightarrow> (c # l) # ls))"

text \<open>
  \<^verbatim>\<open>line.rsplit(' ', 1)\<close> for a line that contains a space: what stands before the
  last space and what stands after it.
\<close>

definition rsplit_space :: "string \<Rightarrow> string \<times> string" where
  "rsplit_space line =
     (let last_token = rev (takeWhile (\<lambda>c. c \<noteq> CHR '' '') (rev line))
      in (take (length line - length last_token - 1) line, last_token))"

text \<open>
  \<^verbatim>\<open>s.replace(old, '')\<close> for a non-empty \<^verbatim>\<open>old\<close>: every occurrence is removed,
  left to right.
\<close>

function str_remove :: "string \<Rightarrow> string \<Rightarrow> string" where
  "str_remove old s =
     (if s = [] then []
      else if old \<noteq> [] \<and> take (length old) s = old
        then str_remove old (drop (length old) s)
      else hd s # str_remove old (tl s))"
  by pat_completeness auto
termination
  by (relation "measure (\<lambda>(old, s). length s)") auto

declare str_remove.simps [simp del]

text \<open>\<^verbatim>\<open>name.split('{')[0]\<close>: the name up to the first brace.\<close>

definition strip_labels :: "string \<Rightarrow> string" where
  "strip_labels metric_name = takeWhile (\<lambda>c. c \<noteq> CHR ''{'') metric_name"

subsection \<open>The parser\<close>

text \<open>
  The body of the \<^verbatim>\<open>try\<close> for one line. \<open>float_of\<close> stands for Python's built-in
  \<^verbatim>\<open>float\<close> on strings: \<open>None\<close> is its \<^verbatim>\<open>ValueError\<close>. The result is the
  exception that leaves the body, or the assignment \<^verbatim>\<open>metrics[clean_name] = ...\<close> it
  makes, if any.
\<close>

definition try_line ::
  "(string \<Rightarrow> 'v option) \<Rightarrow> string \<Rightarrow> string \<Rightarrow> py_exception + (string \<times> 'v) option"
where
  "try_line float_of prefix line =
     (if CHR '' '' \<in> set line then
        (case rsplit_space line of
           (metric_name, val) \<Rightarrow>
             if prefix \<noteq> [] \<and> take (length prefix) metric_name = prefix then
               (case float_of val of
                  None \<Rightarrow> Inl ValueError
                | Some v \<Rightarrow> Inr (Some (strip_labels (str_remove prefix metric_name), v)))
             else if prefix = [] then
               (case float_of val of
                  None \<Rightarrow> Inl ValueError
                | Some v \<Rightarrow> Inr (Some (strip_labels metric_name, v)))
             else Inr None)
      else Inr None)"

text \<open>
  The loop over the lines, on the dict built so far. A comment line and a blank line
  are skipped before the \<^verbatim>\<open>try\<close>; \<^verbatim>\<open>except (ValueError, IndexError): continue\<close>
  skips the line, and any other exception would leave the function.
\<close>

fun parse_lines ::
  "(string \<Rightarrow> 'v option) \<Rightarrow> string \<Rightarrow> string list \<Rightarrow> (string \<rightharpoonup> 'v) \<Rightarrow>
     py_exception + (string \<rightharpoonup> 'v)"
where
  "parse_lines float_of prefix [] metrics = Inr metrics"
| "parse_lines float_of prefix (line # rest) metrics =
     (if startswith_hash line \<or> blank line then parse_lines float_of prefix rest metrics
      else
        (case try_line float_of prefix line of
           Inl e \<Rightarrow>
             if e = ValueError \<or> e = IndexError
             then parse_lines float_of prefix rest metrics
             else Inl e
         | Inr None \<Rightarrow> parse_lines float_of prefix rest metrics
         | Inr (Some (clean_name, v)) \<Rightarrow>
             parse_lines float_of prefix rest (metrics(clean_name \<mapsto> v))))"

text \<open>\<^verbatim>\<open>SelfHealingSystem.parse_prometheus_metrics\<close>; the default prefix is the empty string.\<close>

definition parse_prometheus_metrics ::
  "(string \<Rightarrow> 'v option) \<Rightarrow> string \<Rightarrow> string \<Rightarrow> py_exception + (string \<rightharpoonup> 'v)"
where
  "parse_prometheus_metrics float_of metrics_text prefix =
     parse_lines float_of prefix (split_newline metrics_text) Map.empty"

text \<open>The entry a line writes into the dict, if it writes one.\<close>

definition metric_entry ::
  "(string \<Rightarrow> 'v option) \<Rightarrow> string \<Rightarrow> string \<Rightarrow> (string \<times> 'v) option"
where
  "metric_entry float_of prefix line =
     (if startswith_hash line \<or> blank line then None
      else (case try_line float_of prefix line of
              Inr (Some entry) \<Rightarrow> Some entry
            | _ \<Rightarrow> None))"

definition write_entry ::
  "(string \<Rightarrow> 'v option) \<Rightarrow> string \<Rightarrow> string \<Rightarrow> (string \<rightharpoonup> 'v) \<Rightarrow> (string \<rightharpoonup> 'v)"
where
  "write_entry float_of prefix line metrics =
     (case metric_entry float_of prefix line of
        None \<Rightarrow> metrics
      | Some (clean_name, v) \<Rightarrow> metrics(clean_name \<mapsto> v))"

text \<open>
  A stand-in for \<^verbatim>\<open>float\<close> in examples: it reads a non-empty string of decimal
  digits, as \<^verbatim>\<open>float\<close> does, and rejects everything else.
\<close>

definition float_of_digits :: "string \<Rightarrow> rat option" where
  "float_of_digits s =
     (if s \<noteq> [] \<and> list_all (\<lambda>c. CHR ''0'' \<le> c \<and> c \<le> CHR ''9'') s
      then Some (of_nat (foldl (\<lambda>n c. 10 * n + (of_char c - 48)) 0 s))
      else None)"

lemma try_line_error: "try_line float_of prefix line = Inl e \<Longrightarrow> e = ValueError"
  by (auto simp: try_line_def split: if_splits prod.splits option.splits)

lemma parse_lines_step:
  "parse_lines float_of prefix (line # rest) metrics =
     parse_lines float_of prefix rest (write_entry float_of prefix line metrics)"
proof (cases "startswith_hash line \<or> blank line")
  case True
  then show ?thesis
    by (simp add: write_entry_def metric_entry_def)
next
  case False
  show ?thesis
  proof (cases "try_line float_of prefix line")
    case (Inl e)
    with try_line_error [OF Inl] False show ?thesis
      by (simp add: write_entry_def metric_entry_def)
  next
    case (Inr r)
    show ?thesis
    proof (cases r)
      case None
      with Inr False show ?thesis
        by (simp add: write_entry_def metric_entry_def)
    next
      case (Some entry)
      obtain k v where "entry = (k, v)" by (cases entry)
      with Some Inr False show ?thesis
        by (simp add: write_entry_def metric_entry_def)
    qed
  qed
qed

lemma parse_lines_fold:
  "parse_lines float_of prefix ls metrics =
     Inr (fold (write_entry float_of prefix) ls metrics)"
proof (induction ls arbitrary: metrics)
  case Nil
  then show ?case by simp
next
  case (Cons line rest)
  show ?case
    by (simp only: parse_lines_step Cons.IH fold_simps)
qed

lemma fold_write_entry_skip:
  "metric_entry float_of prefix line = None \<Longrightarrow>
     fold (write_entry float_of prefix) (before @ line # after) metrics =
     fold (write_entry float_of prefix) (before @ after) metrics"
  by (simp add: write_entry_def)

lemma fold_write_entry_untouched:
  "\<forall>l \<in> set ls. \<forall>w. metric_entry float_of prefix l \<noteq> Some (k, w) \<Longrightarrow>
     fold (write_entry float_of prefix) ls metrics k = metrics k"
proof (induction ls arbitrary: metrics)
  case Nil
  then show ?case by simp
next
  case (Cons l ls)
  from Cons.prems have rest: "\<forall>l \<in> set ls. \<forall>w. metric_entry float_of prefix l \<noteq> Some (k, w)"
    and here: "\<forall>w. metric_entry float_of prefix l \<noteq> Some (k, w)"
    by simp_all
  from here have "write_entry float_of prefix l metrics k = metrics k"
    by (auto simp: write_entry_def split: option.splits)
  with Cons.IH [OF rest, of "write_entry float_of prefix l metrics"] show ?case
    by simp
qed

lemma fold_write_entry_last:
  assumes "metric_entry float_of prefix line = Some (k, v)"
    and "\<forall>l \<in> set after. \<forall>w. metric_entry float_of prefix l \<noteq> Some (k, w)"
  shows "fold (write_entry float_of prefix) (before @ line # after) metrics k = Some v"
proof -
  let ?m1 = "fold (write_entry float_of prefix) before metrics"
  from assms(1) have "write_entry float_of prefix line ?m1 k = Some v"
    by (simp add: write_entry_def)
  with fold_write_entry_untouched [OF assms(2), of "write_entry float_of prefix line ?m1"]
  show ?thesis by simp
qed

lemma rsplit_space_name_value:
  assumes "CHR '' '' \<notin> set val"
  shows "rsplit_space (name @ CHR '' '' # val) = (name, val)"
proof -
  have "rev (name @ CHR '' '' # val) = rev val @ CHR '' '' # rev name"
    by simp
  moreover have "takeWhile (\<lambda>c. c \<noteq> CHR '' '') (rev val @ CHR '' '' # rev name) = rev val"
    using assms by (subst takeWhile_append2) auto
  ultimately have "rev (takeWhile (\<lambda>c. c \<noteq> CHR '' '') (rev (name @ CHR '' '' # val))) = val"
    by simp
  then show ?thesis
    by (simp add: rsplit_space_def Let_def)
qed

lemma metric_entry_name_value:
  assumes "CHR '' '' \<notin> set val"
    and "\<not> startswith_hash (name @ CHR '' '' # val)" and "\<not> blank (name @ CHR '' '' # val)"
    and "float_of val = Some v"
  shows "metric_entry float_of [] (name @ CHR '' '' # val) = Some (strip_labels name, v)"
  using assms(2-4)
  by (simp add: metric_entry_def try_line_def rsplit_space_name_value [OF assms(1)])

text \<open>
  Claim C8, as amended. For every input text and prefix the parser returns a
  name-to-value map and never fails (a value that \<^verbatim>\<open>float\<close> rejects only skips its
  line). A line that starts with \<^verbatim>\<open>#\<close> and a blank line contribute nothing: the
  result is that of the other lines. With the default empty prefix, a line
  \<^verbatim>\<open>name value\<close> whose last token \<^verbatim>\<open>float\<close> accepts writes the entry whose key is the
  name up to its first \<^verbatim>\<open>{\<close> and whose value is that float; the dict keeps one
  value per key, so the returned map holds that entry unless a later line writes the
  same key: for each key the last such line wins.
\<close>

theorem parse_prometheus_metrics_spec:
  "(\<exists>metrics. parse_prometheus_metrics float_of metrics_text prefix = Inr metrics) \<and>
   (split_newline metrics_text = before @ line # after \<and>
    (startswith_hash line \<or> blank line) \<longrightarrow>
      parse_prometheus_metrics float_of metrics_text prefix =
        parse_lines float_of prefix (before @ after) Map.empty) \<and>
   (split_newline metrics_text = before @ (name @ '' '' @ val) # after \<and>
    CHR '' '' \<notin> set val \<and> float_of val = Some v \<and>
    \<not> startswith_hash (name @ '' '' @ val) \<and> \<not> blank (name @ '' '' @ val) \<longrightarrow>
      parse_lines float_of [] ((name @ '' '' @ val) # after) metrics0 =
        parse_lines float_of [] after (metrics0(strip_labels name \<mapsto> v)) \<and>
      ((\<forall>l \<in> set after. \<forall>w. metric_entry float_of [] l \<noteq> Some (strip_labels name, w)) \<longrightarrow>
         (\<exists>metrics. parse_prometheus_metrics float_of metrics_text [] = Inr metrics \<and>
            metrics (strip_labels name) = Some v)))"
proof (intro conjI impI)
  show "\<exists>metrics. parse_prometheus_metrics float_of metrics_text prefix = Inr metrics"
    by (simp add: parse_prometheus_metrics_def parse_lines_fold)
next
  assume a: "split_newline metrics_text = before @ line # after \<and>
    (startswith_hash line \<or> blank line)"
  then have "metric_entry float_of prefix line = None"
    by (auto simp: metric_entry_def)
  from fold_write_entry_skip [OF this, of before after Map.empty] a
  show "parse_prometheus_metrics float_of metrics_text prefix =
        parse_lines float_of prefix (before @ after) Map.empty"
    by (simp add: parse_prometheus_metrics_def parse_lines_fold)
next
  assume a: "split_newline metrics_text = before @ (name @ '' '' @ val) # after \<and>
    CHR '' '' \<notin> set val \<and> float_of val = Some v \<and>
    \<not> startswith_hash (name @ '' '' @ val) \<and> \<not> blank (name @ '' '' @ val)"
  then have entry:
    "metric_entry float_of [] (name @ CHR '' '' # val) = Some (strip_labels name, v)"
    by (simp add: metric_entry_name_value)
  then show "parse_lines float_of [] ((name @ '' '' @ val) # after) metrics0 =
        parse_lines float_of [] after (metrics0(strip_labels name \<mapsto> v))"
    by (simp add: parse_lines_step write_entry_def del: parse_lines.simps)
  show "\<exists>metrics. parse_prometheus_metrics float_of metrics_text [] = Inr metrics \<and>
            metrics (strip_labels name) = Some v"
    if later: "\<forall>l \<in> set after. \<forall>w. metric_entry float_of [] l \<noteq> Some (strip_labels name, w)"
  proof -
    from a have lines: "split_newline metrics_text = before @ (name @ CHR '' '' # val) # after"
      by simp
    from fold_write_entry_last [OF entry later, of before Map.empty] lines
    show ?thesis
      by (simp add: parse_prometheus_metrics_def parse_lines_fold)
  qed
qed

theorem parse_prometheus_metrics_spec_witness:
  "parse_prometheus_metrics float_of_digits
     (''# HELP errors seen'' @ [CHR 0x0A] @ ''errors{code=4} 1'' @ [CHR 0x0A] @
      ''uptime 72'' @ [CHR 0x0A] @ ''bad x'' @ [CHR 0x0A]) []
   = Inr [''errors'' \<mapsto> 1, ''uptime'' \<mapsto> 72] \<and>
   [''errors'' \<mapsto> 1 :: rat, ''uptime'' \<mapsto> 72] ''uptime'' = Some 72"
  (is "parse_prometheus_metrics _ ?text [] = Inr ?m \<and> _")
proof -
  have lines: "split_newline ?text =
      [''# HELP errors seen'', ''errors{code=4} 1''] @ (''uptime'' @ '' '' @ ''72'') # [''bad x'', '''']"
    by simp
  have run: "parse_prometheus_metrics float_of_digits ?text [] = Inr ?m"
    by (simp add: parse_prometheus_metrics_def startswith_hash_def blank_def py_isspace_def
        try_line_def rsplit_space_def strip_labels_def float_of_digits_def)
  have later: "\<forall>l \<in> set [''bad x'', ''''].
      \<forall>w. metric_entry float_of_digits [] l \<noteq> Some (strip_labels ''uptime'', w)"
    by (simp add: metric_entry_def startswith_hash_def blank_def py_isspace_def
        try_line_def rsplit_space_def strip_labels_def float_of_digits_def)
  have "float_of_digits ''72'' = Some 72"
    by (simp add: float_of_digits_def)
  with parse_prometheus_metrics_spec
    [where float_of = float_of_digits and metrics_text = ?text
      and before = "[''# HELP errors seen'', ''errors{code=4} 1'']"
      and name = "''uptime''" and val = "''72''" and after = "[''bad x'', '''']"
      and v = 72]
    lines later
  have "\<exists>metrics. parse_prometheus_metrics float_of_digits ?text [] = Inr metrics \<and>
      metrics (strip_labels ''uptime'') = Some 72"
    by (simp add: startswith_hash_def blank_def py_isspace_def)
  with run show ?thesis
    by (simp add: strip_labels_def)
qed

text \<open>
  The claim as stated fails: two lines of one metric name differ only in their labels;
  both are of the form \<^verbatim>\<open>name value\<close> with a value that parses, yet the returned map
  has no entry with the value 1 of the first line: the second line has overwritten it.
\<close>

theorem parse_overwrite_counterexample:
  "parse_prometheus_metrics float_of_digits
     (''errors{code=4} 1'' @ [CHR 0x0A] @ ''errors{code=5} 2'') []
   = Inr [''errors'' \<mapsto> 2] \<and>
   float_of_digits ''1'' = Some 1 \<and>
   [''errors'' \<mapsto> 2 :: rat] ''errors'' \<noteq> Some 1"
  by (simp add: parse_prometheus_metrics_def startswith_hash_def blank_def py_isspace_def
      try_line_def rsplit_space_def strip_labels_def float_of_digits_def)

section \<open>anomaly_detector.py: deduplication and ranking of anomaly results\<close>

datatype AnomalyType =
    SENSOR_MALFUNCTION | TEMPERATURE_ANOMALY | PRESSURE_ANOMALY | BATTERY_DEGRADATION
  | COMMUNICATION_ISSUE | DATA_QUALITY_DROP | PREDICTIVE_MAINTENANCE | SECURITY_BREACH

fun anomaly_type_value :: "AnomalyType \<Rightarrow> string" where
  "anomaly_type_value SENSOR_MALFUNCTION = ''sensor_malfunction''"
| "anomaly_type_value TEMPERATURE_ANOMALY = ''temperature_anomaly''"
| "anomaly_type_value PRESSURE_ANOMALY = ''pressure_anomaly''"
| "anomaly_type_value BATTERY_DEGRADATION = ''battery_degradation''"
| "anomaly_type_value COMMUNICATION_ISSUE = ''communication_issue''"
| "anomaly_type_value DATA_QUALITY_DROP = ''data_quality_drop''"
| "anomaly_type_value PREDICTIVE_MAINTENANCE = ''predictive_maintenance''"
| "anomaly_type_value SECURITY_BREACH = ''security_breach''"

datatype SeverityLevel = LOW | MEDIUM | HIGH | CRITICAL | EMERGENCY

fun severity_level_value :: "SeverityLevel \<Rightarrow> int" where
  "severity_level_value SeverityLevel.LOW = 1"
| "severity_level_value SeverityLevel.MEDIUM = 2"
| "severity_level_value SeverityLevel.HIGH = 3"
| "severity_level_value SeverityLevel.CRITICAL = 4"
| "severity_level_value SeverityLevel.EMERGENCY = 5"

text \<open>
  The dataclass \<^verbatim>\<open>AnomalyResult\<close>, with the fields that identify and rank a result;
  \<^verbatim>\<open>timestamp\<close> is the time of observation. The measured values, the free texts and
  the optional fields are left out: deduplication and ranking do not read them.
\<close>

record AnomalyResult =
  device_id :: string
  anomaly_type :: AnomalyType
  severity :: SeverityLevel
  confidence_score :: rat
  timestamp :: int
  model_used :: string

text \<open>The dict key \<^verbatim>\<open>f"{result.device_id}_{result.anomaly_type.value}"\<close>.\<close>

definition result_key :: "AnomalyResult \<Rightarrow> string" where
  "result_key result = device_id result @ ''_'' @ anomaly_type_value (anomaly_type result)"

text \<open>
  A Python dict keeps its keys in the order of their first insertion, and
  \<^verbatim>\<open>unique_results.values()\<close> is read in that order: the dict is an association list,
  and \<^verbatim>\<open>d[k] = v\<close> replaces the value of a present key in place and appends an absent
  key at the end.
\<close>

fun dict_set :: "'k \<Rightarrow> 'v \<Rightarrow> ('k \<times> 'v) list \<Rightarrow> ('k \<times> 'v) list" where
  "dict_set k v [] = [(k, v)]"
| "dict_set k v ((k', v') # rest) =
     (if k' = k then (k, v) # rest else (k', v') # dict_set k v rest)"

text \<open>
  The body of the first loop of \<^verbatim>\<open>deduplicate_and_prioritize\<close>: a result enters the
  dict when its key is new or its severity is strictly above the kept one.
\<close>

definition keep_result ::
  "AnomalyResult \<Rightarrow> (string \<times> AnomalyResult) list \<Rightarrow> (string \<times> AnomalyResult) list"
where
  "keep_result result unique_results =
     (let key = result_key result in
      case map_of unique_results key of
        None \<Rightarrow> dict_set key result unique_results
      | Some kept \<Rightarrow>
          if severity_level_value (AnomalyResult.severity result)
               > severity_level_value (AnomalyResult.severity kept)
          then dict_set key result unique_results
          else unique_results)"

definition unique_results :: "AnomalyResult list \<Rightarrow> (string \<times> AnomalyResult) list" where
  "unique_results results = fold keep_result results []"

text \<open>
  \<^verbatim>\<open>AdvancedAnomalyDetector.deduplicate_and_prioritize\<close>. The sort key is the pair
  (severity value, confidence) with \<^verbatim>\<open>reverse=True\<close>; Python's sort stays stable
  under \<^verbatim>\<open>reverse\<close>, which is the stable ascending sort on the negated pair.
\<close>

definition deduplicate_and_prioritize :: "AnomalyResult list \<Rightarrow> AnomalyResult list" where
  "deduplicate_and_prioritize results =
     sort_key (\<lambda>x. (- severity_level_value (AnomalyResult.severity x), - confidence_score x))
       (map snd (unique_results results))"

subsection \<open>The key identifies the pair of device and anomaly type\<close>

lemma anomaly_type_value_suffix:
  "rev (anomaly_type_value t) @ CHR ''_'' # x = rev (anomaly_type_value t') @ CHR ''_'' # y \<Longrightarrow>
     t = t' \<and> x = y"
  by (cases t; cases t'; simp)

lemma result_key_eq_iff:
  "result_key r = result_key r' \<longleftrightarrow>
     device_id r = device_id r' \<and> anomaly_type r = anomaly_type r'"
proof
  assume "result_key r = result_key r'"
  then have "rev (result_key r) = rev (result_key r')"
    by simp
  then have "rev (anomaly_type_value (anomaly_type r)) @ CHR ''_'' # rev (device_id r) =
      rev (anomaly_type_value (anomaly_type r')) @ CHR ''_'' # rev (device_id r')"
    by (simp add: result_key_def)
  from anomaly_type_value_suffix [OF this]
  show "device_id r = device_id r' \<and> anomaly_type r = anomaly_type r'"
    by simp
next
  assume "device_id r = device_id r' \<and> anomaly_type r = anomaly_type r'"
  then show "result_key r = result_key r'"
    by (simp add: result_key_def)
qed

subsection \<open>The dict\<close>

lemma map_of_dict_set: "map_of (dict_set k v d) = (map_of d)(k \<mapsto> v)"
  by (induction d) (auto simp: fun_eq_iff)

lemma map_fst_dict_set:
  "map fst (dict_set k v d) = (if k \<in> fst ` set d then map fst d else map fst d @ [k])"
  by (induction d) (force simp: image_iff)+

lemma distinct_dict_set:
  "distinct (map fst d) \<Longrightarrow> distinct (map fst (dict_set k v d))"
  by (simp add: map_fst_dict_set)

lemma set_dict_set:
  "distinct (map fst d) \<Longrightarrow>
     set (dict_set k v d) = insert (k, v) {p \<in> set d. fst p \<noteq> k}"
  by (induction d) (force simp: image_iff split: if_splits)+

subsection \<open>What the first loop keeps\<close>

text \<open>
  \<open>r\<close> is the first result of maximal severity among the results of its key: every
  result of the key before it is strictly less severe, none after it is more severe.
\<close>

definition first_of_max :: "AnomalyResult list \<Rightarrow> AnomalyResult \<Rightarrow> bool" where
  "first_of_max results r \<longleftrightarrow>
     (\<exists>pre post. results = pre @ r # post \<and>
        (\<forall>x \<in> set pre. result_key x = result_key r \<longrightarrow>
           severity_level_value (AnomalyResult.severity x)
             < severity_level_value (AnomalyResult.severity r)) \<and>
        (\<forall>x \<in> set post. result_key x = result_key r \<longrightarrow>
           severity_level_value (AnomalyResult.severity x)
             \<le> severity_level_value (AnomalyResult.severity r)))"

definition dedup_inv :: "AnomalyResult list \<Rightarrow> (string \<times> AnomalyResult) list \<Rightarrow> bool" where
  "dedup_inv results d \<longleftrightarrow>
     distinct (map fst d) \<and>
     (\<forall>(k, r) \<in> set d. result_key r = k \<and> first_of_max results r) \<and>
     fst ` set d = result_key ` set results"

text \<open>The pair the claim groups by.\<close>

definition anomaly_group :: "AnomalyResult \<Rightarrow> string \<times> AnomalyType" where
  "anomaly_group r = (device_id r, anomaly_type r)"

lemma result_key_anomaly_group:
  "result_key r = result_key r' \<longleftrightarrow> anomaly_group r = anomaly_group r'"
  by (simp add: result_key_eq_iff anomaly_group_def)

lemma first_of_max_snoc_keep:
  assumes "first_of_max xs r"
    and "result_key x = result_key r \<Longrightarrow>
      severity_level_value (AnomalyResult.severity x)
        \<le> severity_level_value (AnomalyResult.severity r)"
  shows "first_of_max (xs @ [x]) r"
proof -
  from assms(1) obtain pre post where xs: "xs = pre @ r # post"
    and pre: "\<forall>x \<in> set pre. result_key x = result_key r \<longrightarrow>
           severity_level_value (AnomalyResult.severity x)
             < severity_level_value (AnomalyResult.severity r)"
    and post: "\<forall>x \<in> set post. result_key x = result_key r \<longrightarrow>
           severity_level_value (AnomalyResult.severity x)
             \<le> severity_level_value (AnomalyResult.severity r)"
    unfolding first_of_max_def by blast
  from xs have "xs @ [x] = pre @ r # (post @ [x])"
    by simp
  moreover from post assms(2)
  have "\<forall>y \<in> set (post @ [x]). result_key y = result_key r \<longrightarrow>
           severity_level_value (AnomalyResult.severity y)
             \<le> severity_level_value (AnomalyResult.severity r)"
    by auto
  ultimately show ?thesis
    unfolding first_of_max_def using pre by blast
qed

lemma first_of_max_snoc_new:
  assumes "\<forall>y \<in> set xs. result_key y = result_key x \<longrightarrow>
      severity_level_value (AnomalyResult.severity y)
        < severity_level_value (AnomalyResult.severity x)"
  shows "first_of_max (xs @ [x]) x"
proof -
  have "xs @ [x] = xs @ x # []" by simp
  with assms show ?thesis
    unfolding first_of_max_def by fastforce
qed

lemma first_of_max_bound:
  assumes "first_of_max xs r" and "y \<in> set xs" and "result_key y = result_key r"
  shows "severity_level_value (AnomalyResult.severity y)
    \<le> severity_level_value (AnomalyResult.severity r)"
proof -
  from assms(1) obtain pre post where xs: "xs = pre @ r # post"
    and pre: "\<forall>x \<in> set pre. result_key x = result_key r \<longrightarrow>
           severity_level_value (AnomalyResult.severity x)
             < severity_level_value (AnomalyResult.severity r)"
    and post: "\<forall>x \<in> set post. result_key x = result_key r \<longrightarrow>
           severity_level_value (AnomalyResult.severity x)
             \<le> severity_level_value (AnomalyResult.severity r)"
    unfolding first_of_max_def by blast
  from assms(2) xs consider "y \<in> set pre" | "y = r" | "y \<in> set post"
    by auto
  then show ?thesis
  proof cases
    case 1
    with pre assms(3) show ?thesis by force
  next
    case 2
    then show ?thesis by simp
  next
    case 3
    with post assms(3) show ?thesis by blast
  qed
qed

lemma dedup_inv_step:
  assumes inv: "dedup_inv xs d"
  shows "dedup_inv (xs @ [x]) (keep_result x d)"
proof -
  from inv have dist: "distinct (map fst d)"
    and ent: "\<And>k r. (k, r) \<in> set d \<Longrightarrow> result_key r = k \<and> first_of_max xs r"
    and keys: "fst ` set d = result_key ` set xs"
    unfolding dedup_inv_def by auto
  let ?k = "result_key x"
  let ?d' = "dict_set ?k x d"
  have set_d': "set ?d' = insert (?k, x) {p \<in> set d. fst p \<noteq> ?k}"
    using dist by (rule set_dict_set)
  have other: "result_key r = k \<and> first_of_max (xs @ [x]) r"
    if "(k, r) \<in> set d" and "k \<noteq> ?k" for k r
  proof -
    from ent [OF that(1)] have kr: "result_key r = k" and fm: "first_of_max xs r"
      by simp_all
    from that(2) kr have "result_key x \<noteq> result_key r" by simp
    with fm have "first_of_max (xs @ [x]) r"
      by (intro first_of_max_snoc_keep) simp_all
    with kr show ?thesis by simp
  qed
  have replaced: "dedup_inv (xs @ [x]) ?d'"
    if new: "\<forall>y \<in> set xs. result_key y = ?k \<longrightarrow>
      severity_level_value (AnomalyResult.severity y)
        < severity_level_value (AnomalyResult.severity x)"
  proof -
    have "distinct (map fst ?d')"
      using dist by (rule distinct_dict_set)
    moreover have "\<forall>(k, r) \<in> set ?d'. result_key r = k \<and> first_of_max (xs @ [x]) r"
      using other first_of_max_snoc_new [OF new] by (auto simp: set_d')
    moreover have "fst ` set ?d' = result_key ` set (xs @ [x])"
    proof -
      have "fst ` set ?d' = insert ?k (fst ` set d)"
        by (auto simp: set_d' image_iff)
      with keys show ?thesis by auto
    qed
    ultimately show ?thesis
      unfolding dedup_inv_def by blast
  qed
  show ?thesis
  proof (cases "map_of d ?k")
    case None
    then have "?k \<notin> result_key ` set xs"
      using keys by (simp add: map_of_eq_None_iff)
    then have "\<forall>y \<in> set xs. result_key y = ?k \<longrightarrow>
      severity_level_value (AnomalyResult.severity y)
        < severity_level_value (AnomalyResult.severity x)"
      by (metis imageI)
    from replaced [OF this] None show ?thesis
      by (simp add: keep_result_def)
  next
    case (Some c)
    then have c: "(?k, c) \<in> set d"
      by (rule map_of_SomeD)
    from ent [OF c] have kc: "result_key c = ?k" and fc: "first_of_max xs c"
      by simp_all
    show ?thesis
    proof (cases "severity_level_value (AnomalyResult.severity x)
        > severity_level_value (AnomalyResult.severity c)")
      case True
      have "\<forall>y \<in> set xs. result_key y = ?k \<longrightarrow>
        severity_level_value (AnomalyResult.severity y)
          < severity_level_value (AnomalyResult.severity x)"
      proof (intro ballI impI)
        fix y
        assume "y \<in> set xs" and "result_key y = ?k"
        with first_of_max_bound [OF fc, of y] kc
        have "severity_level_value (AnomalyResult.severity y)
          \<le> severity_level_value (AnomalyResult.severity c)"
          by simp
        with True show "severity_level_value (AnomalyResult.severity y)
          < severity_level_value (AnomalyResult.severity x)"
          by simp
      qed
      from replaced [OF this] Some True show ?thesis
        by (simp add: keep_result_def)
    next
      case False
      have "result_key r = k \<and> first_of_max (xs @ [x]) r" if m: "(k, r) \<in> set d" for k r
      proof (cases "k = ?k")
        case True
        with m c dist have "r = c"
          by (metis eq_key_imp_eq_value)
        with False kc fc True show ?thesis
          by (auto intro: first_of_max_snoc_keep)
      next
        case False
        with m show ?thesis by (rule other)
      qed
      moreover have "fst ` set d = result_key ` set (xs @ [x])"
      proof -
        from c have "?k \<in> fst ` set d"
          by (metis fst_conv imageI)
        with keys have "?k \<in> result_key ` set xs"
          by simp
        with keys show ?thesis
          by auto
      qed
      ultimately have "dedup_inv (xs @ [x]) d"
        unfolding dedup_inv_def using dist by blast
      with Some False show ?thesis
        by (simp add: keep_result_def)
    qed
  qed
qed

lemma dedup_inv_unique_results: "dedup_inv results (unique_results results)"
proof (induction results rule: rev_induct)
  case Nil
  show ?case
    by (simp add: dedup_inv_def unique_results_def)
next
  case (snoc x xs)
  from dedup_inv_step [OF snoc.IH, of x] show ?case
    by (simp add: unique_results_def)
qed

subsection \<open>The returned list\<close>

lemma set_deduplicate_and_prioritize:
  "set (deduplicate_and_prioritize results) = snd ` set (unique_results results)"
  by (simp add: deduplicate_and_prioritize_def)

lemma map_result_key_unique_results:
  "map result_key (map snd (unique_results results)) = map fst (unique_results results)"
proof -
  from dedup_inv_unique_results [of results]
  have "\<forall>p \<in> set (unique_results results). result_key (snd p) = fst p"
    unfolding dedup_inv_def by auto
  then show ?thesis by simp
qed

lemma distinct_result_key_output:
  "distinct (map result_key (deduplicate_and_prioritize results))"
proof -
  from dedup_inv_unique_results [of results]
  have "distinct (map fst (unique_results results))"
    unfolding dedup_inv_def by simp
  then have "distinct (map result_key (map snd (unique_results results)))"
    by (simp only: map_result_key_unique_results)
  then have "distinct (map snd (unique_results results))"
    and "inj_on result_key (set (map snd (unique_results results)))"
    by (simp_all only: distinct_map)
  then show ?thesis
    by (simp add: deduplicate_and_prioritize_def distinct_map)
qed

lemma distinct_anomaly_group_output:
  "distinct (map anomaly_group (deduplicate_and_prioritize results))"
proof -
  from distinct_result_key_output [of results]
  have d: "distinct (deduplicate_and_prioritize results)"
    and i: "inj_on result_key (set (deduplicate_and_prioritize results))"
    by (simp_all only: distinct_map)
  from i have "inj_on anomaly_group (set (deduplicate_and_prioritize results))"
    unfolding inj_on_def by (simp add: result_key_anomaly_group)
  with d show ?thesis
    by (simp add: distinct_map)
qed

lemma anomaly_group_output:
  "anomaly_group ` set (deduplicate_and_prioritize results) = anomaly_group ` set results"
proof -
  from dedup_inv_unique_results [of results]
  have keys: "fst ` set (unique_results results) = result_key ` set results"
    unfolding dedup_inv_def by simp
  have "result_key ` set (deduplicate_and_prioritize results)
      = set (map result_key (map snd (unique_results results)))"
    by (simp add: set_deduplicate_and_prioritize image_image)
  also have "\<dots> = result_key ` set results"
    using keys by (simp only: map_result_key_unique_results set_map)
  finally have k: "result_key ` set (deduplicate_and_prioritize results)
      = result_key ` set results" .
  show ?thesis
  proof (intro equalityI subsetI)
    fix g
    assume "g \<in> anomaly_group ` set (deduplicate_and_prioritize results)"
    then obtain r where r: "r \<in> set (deduplicate_and_prioritize results)"
      and g: "g = anomaly_group r"
      by blast
    from r k have "result_key r \<in> result_key ` set results" by blast
    then obtain r' where "r' \<in> set results" and "result_key r = result_key r'"
      by blast
    with g show "g \<in> anomaly_group ` set results"
      by (auto simp: result_key_anomaly_group)
  next
    fix g
    assume "g \<in> anomaly_group ` set results"
    then obtain r where r: "r \<in> set results" and g: "g = anomaly_group r"
      by blast
    from r k have "result_key r \<in> result_key ` set (deduplicate_and_prioritize results)"
      by blast
    then obtain r' where "r' \<in> set (deduplicate_and_prioritize results)"
      and "result_key r = result_key r'"
      by blast
    with g show "g \<in> anomaly_group ` set (deduplicate_and_prioritize results)"
      by (auto simp: result_key_anomaly_group)
  qed
qed

lemma first_of_max_output:
  assumes "kept \<in> set (deduplicate_and_prioritize results)"
  shows "first_of_max results kept"
proof -
  from assms obtain k where "(k, kept) \<in> set (unique_results results)"
    by (auto simp: set_deduplicate_and_prioritize)
  with dedup_inv_unique_results [of results] show ?thesis
    unfolding dedup_inv_def by blast
qed

text \<open>
  Claim C4, as amended. Deduplication collapses all results that share
  (device_id, anomaly_type) into exactly one result: the groups of the output are the
  groups of the input, each once. The kept result has the maximal severity of its
  group. Among results of equal maximal severity the first in input order is kept,
  whatever the confidence: every result of the group before the kept one is strictly
  less severe, and none after it is more severe.
\<close>

theorem deduplicate_keeps_first_of_max:
  "distinct (map anomaly_group (deduplicate_and_prioritize results)) \<and>
   anomaly_group ` set (deduplicate_and_prioritize results) = anomaly_group ` set results \<and>
   (\<forall>kept \<in> set (deduplicate_and_prioritize results).
      \<exists>pre post. results = pre @ kept # post \<and>
        (\<forall>r \<in> set pre. anomaly_group r = anomaly_group kept \<longrightarrow>
           severity_level_value (AnomalyResult.severity r)
             < severity_level_value (AnomalyResult.severity kept)) \<and>
        (\<forall>r \<in> set post. anomaly_group r = anomaly_group kept \<longrightarrow>
           severity_level_value (AnomalyResult.severity r)
             \<le> severity_level_value (AnomalyResult.severity kept)))"
proof (intro conjI ballI)
  show "distinct (map anomaly_group (deduplicate_and_prioritize results))"
    by (rule distinct_anomaly_group_output)
  show "anomaly_group ` set (deduplicate_and_prioritize results) = anomaly_group ` set results"
    by (rule anomaly_group_output)
next
  fix kept
  assume "kept \<in> set (deduplicate_and_prioritize results)"
  then have "first_of_max results kept"
    by (rule first_of_max_output)
  then show "\<exists>pre post. results = pre @ kept # post \<and>
        (\<forall>r \<in> set pre. anomaly_group r = anomaly_group kept \<longrightarrow>
           severity_level_value (AnomalyResult.severity r)
             < severity_level_value (AnomalyResult.severity kept)) \<and>
        (\<forall>r \<in> set post. anomaly_group r = anomaly_group kept \<longrightarrow>
           severity_level_value (AnomalyResult.severity r)
             \<le> severity_level_value (AnomalyResult.severity kept))"
    unfolding first_of_max_def result_key_anomaly_group .
qed

theorem deduplicate_keeps_first_of_max_witness:
  "deduplicate_and_prioritize
     [\<lparr>device_id = ''D2'', anomaly_type = TEMPERATURE_ANOMALY,
       severity = SeverityLevel.MEDIUM, confidence_score = 9 / 10, timestamp = 1,
       model_used = ''rule''\<rparr>,
      \<lparr>device_id = ''D2'', anomaly_type = TEMPERATURE_ANOMALY,
       severity = SeverityLevel.HIGH, confidence_score = 6 / 10, timestamp = 1,
       model_used = ''isolation_forest''\<rparr>]
   = [\<lparr>device_id = ''D2'', anomaly_type = TEMPERATURE_ANOMALY,
       severity = SeverityLevel.HIGH, confidence_score = 6 / 10, timestamp = 1,
       model_used = ''isolation_forest''\<rparr>] \<and>
   distinct (map anomaly_group
     (deduplicate_and_prioritize
       [\<lparr>device_id = ''D2'', anomaly_type = TEMPERATURE_ANOMALY,
         severity = SeverityLevel.MEDIUM, confidence_score = 9 / 10, timestamp = 1,
         model_used = ''rule''\<rparr>,
        \<lparr>device_id = ''D2'', anomaly_type = TEMPERATURE_ANOMALY,
         severity = SeverityLevel.HIGH, confidence_score = 6 / 10, timestamp = 1,
         model_used = ''isolation_forest''\<rparr>]))"
  (is "deduplicate_and_prioritize ?rs = ?out \<and> _")
proof -
  have "deduplicate_and_prioritize ?rs = ?out"
    by (simp add: deduplicate_and_prioritize_def unique_results_def keep_result_def
        result_key_def)
  with deduplicate_keeps_first_of_max [of ?rs] show ?thesis
    by blast
qed

text \<open>
  The claim as stated fails: of two results of one group with equal severity, the
  first is kept although the second has the higher confidence.
\<close>

theorem dedup_confidence_counterexample:
  "deduplicate_and_prioritize
     [\<lparr>device_id = ''D2'', anomaly_type = TEMPERATURE_ANOMALY,
       severity = SeverityLevel.HIGH, confidence_score = 5 / 10, timestamp = 1,
       model_used = ''rule''\<rparr>,
      \<lparr>device_id = ''D2'', anomaly_type = TEMPERATURE_ANOMALY,
       severity = SeverityLevel.HIGH, confidence_score = 9 / 10, timestamp = 1,
       model_used = ''isolation_forest''\<rparr>]
   = [\<lparr>device_id = ''D2'', anomaly_type = TEMPERATURE_ANOMALY,
       severity = SeverityLevel.HIGH, confidence_score = 5 / 10, timestamp = 1,
       model_used = ''rule''\<rparr>]"
  by (simp add: deduplicate_and_prioritize_def unique_results_def keep_result_def
      result_key_def)

subsection \<open>The ranking\<close>

text \<open>
  The position in the input at which the group of a result first appears: the number
  of results before the first one of that (device_id, anomaly_type).
\<close>

definition first_seen :: "AnomalyResult list \<Rightarrow> AnomalyResult \<Rightarrow> nat" where
  "first_seen results r =
     length (takeWhile (\<lambda>x. anomaly_group x \<noteq> anomaly_group r) results)"

text \<open>
  The order of the returned list: \<open>a\<close> stands before \<open>b\<close> when it is more severe, or
  equally severe and more confident, or tied on both and of a group that appears
  earlier in the input.
\<close>

definition ranked_before :: "AnomalyResult list \<Rightarrow> AnomalyResult \<Rightarrow> AnomalyResult \<Rightarrow> bool" where
  "ranked_before results a b \<longleftrightarrow>
     severity_level_value (AnomalyResult.severity b)
       < severity_level_value (AnomalyResult.severity a) \<or>
     (severity_level_value (AnomalyResult.severity b)
        = severity_level_value (AnomalyResult.severity a) \<and>
      (confidence_score b < confidence_score a \<or>
       (confidence_score b = confidence_score a \<and>
        first_seen results a < first_seen results b)))"

text \<open>
  The ranking of the specification, in its own words: severity descending, then
  confidence descending, then time of observation ascending, ties on all three broken
  by the lexicographic order of the device id.
\<close>

definition spec_ranks_before :: "AnomalyResult \<Rightarrow> AnomalyResult \<Rightarrow> bool" where
  "spec_ranks_before a b \<longleftrightarrow>
     severity_level_value (AnomalyResult.severity b)
       < severity_level_value (AnomalyResult.severity a) \<or>
     (severity_level_value (AnomalyResult.severity b)
        = severity_level_value (AnomalyResult.severity a) \<and>
      (confidence_score b < confidence_score a \<or>
       (confidence_score b = confidence_score a \<and>
        (AnomalyResult.timestamp a < AnomalyResult.timestamp b \<or>
         (AnomalyResult.timestamp a = AnomalyResult.timestamp b \<and>
          device_id a \<le> device_id b)))))"

text \<open>The dict holds its keys in the order of their first appearance in the input.\<close>

definition key_pos :: "AnomalyResult list \<Rightarrow> string \<Rightarrow> nat" where
  "key_pos results k = length (takeWhile (\<lambda>x. result_key x \<noteq> k) results)"

lemma first_seen_key_pos: "first_seen results r = key_pos results (result_key r)"
  by (simp add: first_seen_def key_pos_def result_key_anomaly_group)

lemma key_pos_snoc_old:
  assumes "k \<in> result_key ` set xs"
  shows "key_pos (xs @ [x]) k = key_pos xs k"
proof -
  from assms obtain y where "y \<in> set xs" and "\<not> result_key y \<noteq> k"
    by auto
  then have "takeWhile (\<lambda>x. result_key x \<noteq> k) (xs @ [x])
      = takeWhile (\<lambda>x. result_key x \<noteq> k) xs"
    by (rule takeWhile_append1)
  then show ?thesis
    by (simp add: key_pos_def)
qed

lemma key_pos_less:
  assumes "k \<in> result_key ` set xs"
  shows "key_pos xs k < length xs"
proof -
  let ?P = "\<lambda>x. result_key x \<noteq> k"
  from assms have "\<not> (\<forall>x \<in> set xs. ?P x)"
    by auto
  then have ne: "takeWhile ?P xs \<noteq> xs"
    by (simp only: takeWhile_eq_all_conv not_False_eq_True)
  have "length (takeWhile ?P xs) \<noteq> length xs"
  proof
    assume "length (takeWhile ?P xs) = length xs"
    moreover have "takeWhile ?P xs @ dropWhile ?P xs = xs"
      by simp
    ultimately have "dropWhile ?P xs = []"
      by (metis append_eq_conv_conj append_Nil2 take_all order_refl)
    with \<open>takeWhile ?P xs @ dropWhile ?P xs = xs\<close> ne show False
      by simp
  qed
  with length_takeWhile_le [of ?P xs] show ?thesis
    by (simp add: key_pos_def)
qed

lemma key_pos_snoc_new:
  assumes "result_key x \<notin> result_key ` set xs"
  shows "key_pos (xs @ [x]) (result_key x) = length xs"
proof -
  from assms have "\<And>y. y \<in> set xs \<Longrightarrow> result_key y \<noteq> result_key x"
    by (metis imageI)
  then have "takeWhile (\<lambda>y. result_key y \<noteq> result_key x) (xs @ [x])
      = xs @ takeWhile (\<lambda>y. result_key y \<noteq> result_key x) [x]"
    by (rule takeWhile_append2)
  then show ?thesis
    by (simp add: key_pos_def)
qed

lemma map_fst_keep_result:
  "map fst (keep_result x d) =
     (if result_key x \<in> fst ` set d then map fst d else map fst d @ [result_key x])"
proof (cases "map_of d (result_key x)")
  case None
  then have "result_key x \<notin> fst ` set d"
    by (simp add: map_of_eq_None_iff)
  with None show ?thesis
    by (simp add: keep_result_def map_fst_dict_set)
next
  case (Some c)
  then have "(result_key x, c) \<in> set d"
    by (rule map_of_SomeD)
  then have "result_key x \<in> fst ` set d"
    by (metis fst_conv imageI)
  with Some show ?thesis
    by (simp add: keep_result_def map_fst_dict_set)
qed

lemma unique_results_key_order:
  "sorted_wrt (\<lambda>k k'. key_pos results k < key_pos results k')
     (map fst (unique_results results))"
proof (induction results rule: rev_induct)
  case Nil
  show ?case by (simp add: unique_results_def)
next
  case (snoc x xs)
  let ?d = "unique_results xs"
  from dedup_inv_unique_results [of xs]
  have keys: "fst ` set ?d = result_key ` set xs"
    unfolding dedup_inv_def by simp
  have step: "unique_results (xs @ [x]) = keep_result x ?d"
    by (simp add: unique_results_def)
  have old: "sorted_wrt (\<lambda>k k'. key_pos (xs @ [x]) k < key_pos (xs @ [x]) k') (map fst ?d)"
  proof (rule sorted_wrt_mono_rel [OF _ snoc.IH])
    fix k k'
    assume "k \<in> set (map fst ?d)" and "k' \<in> set (map fst ?d)"
      and "key_pos xs k < key_pos xs k'"
    with keys show "key_pos (xs @ [x]) k < key_pos (xs @ [x]) k'"
      by (simp add: key_pos_snoc_old)
  qed
  show ?case
  proof (cases "result_key x \<in> fst ` set ?d")
    case True
    with old show ?thesis
      by (simp add: step map_fst_keep_result)
  next
    case False
    with keys have new: "result_key x \<notin> result_key ` set xs"
      by simp
    have "key_pos (xs @ [x]) k < key_pos (xs @ [x]) (result_key x)"
      if "k \<in> set (map fst ?d)" for k
    proof -
      from that keys have k: "k \<in> result_key ` set xs"
        by simp
      from key_pos_less [OF k] show ?thesis
        by (simp add: key_pos_snoc_old [OF k] key_pos_snoc_new [OF new])
    qed
    with old False show ?thesis
      by (simp add: step map_fst_keep_result sorted_wrt_append)
  qed
qed

lemma unique_results_first_seen_order:
  "sorted_wrt (\<lambda>a b. first_seen results a < first_seen results b)
     (map snd (unique_results results))"
proof -
  from unique_results_key_order [of results]
  have "sorted_wrt (\<lambda>k k'. key_pos results k < key_pos results k')
      (map result_key (map snd (unique_results results)))"
    by (simp only: map_result_key_unique_results)
  then show ?thesis
    by (simp only: sorted_wrt_map first_seen_key_pos)
qed

text \<open>A stable sort keeps, among elements of equal key, the order they had.\<close>

lemma sorted_wrt_insort_key_stable:
  fixes f :: "'a \<Rightarrow> 'b::linorder"
  assumes "sorted_wrt (\<lambda>a b. f a \<le> f b \<and> (f a = f b \<longrightarrow> R a b)) ys"
    and "\<forall>y \<in> set ys. R x y"
  shows "sorted_wrt (\<lambda>a b. f a \<le> f b \<and> (f a = f b \<longrightarrow> R a b)) (insort_key f x ys)"
  using assms
proof (induction ys)
  case Nil
  then show ?case by simp
next
  case (Cons y ys)
  show ?case
  proof (cases "f x \<le> f y")
    case True
    have "f x \<le> f z \<and> (f x = f z \<longrightarrow> R x z)" if "z \<in> set (y # ys)" for z
    proof -
      from that Cons.prems(1) have "f y \<le> f z"
        by auto
      with True have "f x \<le> f z" by simp
      moreover from that Cons.prems(2) have "R x z" by blast
      ultimately show ?thesis by simp
    qed
    with True Cons.prems(1) show ?thesis
      by simp
  next
    case False
    from Cons.prems have "sorted_wrt (\<lambda>a b. f a \<le> f b \<and> (f a = f b \<longrightarrow> R a b))
        (insort_key f x ys)"
      by (intro Cons.IH) simp_all
    moreover have "f y \<le> f z \<and> (f y = f z \<longrightarrow> R y z)"
      if "z \<in> set (insort_key f x ys)" for z
    proof (cases "z = x")
      case True
      with False show ?thesis by auto
    next
      case False
      with that have "z \<in> set ys"
        by (simp add: set_insort_key)
      with Cons.prems(1) show ?thesis by simp
    qed
    ultimately show ?thesis
      using False by simp
  qed
qed

lemma sorted_wrt_sort_key_stable:
  fixes f :: "'a \<Rightarrow> 'b::linorder"
  assumes "sorted_wrt R xs"
  shows "sorted_wrt (\<lambda>a b. f a \<le> f b \<and> (f a = f b \<longrightarrow> R a b)) (sort_key f xs)"
  using assms
proof (induction xs)
  case Nil
  then show ?case by simp
next
  case (Cons x xs)
  from Cons.prems have "sorted_wrt R xs" and first: "\<forall>y \<in> set xs. R x y"
    by simp_all
  then have "sorted_wrt (\<lambda>a b. f a \<le> f b \<and> (f a = f b \<longrightarrow> R a b)) (sort_key f xs)"
    by (intro Cons.IH)
  moreover from first have "\<forall>y \<in> set (sort_key f xs). R x y"
    by simp
  ultimately show ?case
    by (simp add: sorted_wrt_insort_key_stable)
qed

lemma ranked_deduplicate_and_prioritize:
  "sorted_wrt (ranked_before results) (deduplicate_and_prioritize results)"
proof -
  let ?key = "\<lambda>x. (- severity_level_value (AnomalyResult.severity x), - confidence_score x)"
  let ?R = "\<lambda>a b. first_seen results a < first_seen results b"
  have "sorted_wrt (\<lambda>a b. ?key a \<le> ?key b \<and> (?key a = ?key b \<longrightarrow> ?R a b))
      (deduplicate_and_prioritize results)"
    unfolding deduplicate_and_prioritize_def
    using unique_results_first_seen_order [of results]
    by (rule sorted_wrt_sort_key_stable)
  moreover have "ranked_before results a b"
    if "?key a \<le> ?key b \<and> (?key a = ?key b \<longrightarrow> ?R a b)" for a b
    using that by (auto simp: ranked_before_def less_eq_prod_def)
  ultimately show ?thesis
    by (rule sorted_wrt_mono_rel [rotated]) simp
qed

text \<open>
  Claim C5, as amended. The output of deduplication and prioritisation is sorted by
  severity descending, then confidence descending, and results that tie on both stand
  in the order in which their (device_id, anomaly_type) groups first appear in the
  input. The time of observation and the device id take no part, so the ranking is
  fixed by the input list and not by its multiset alone. The output holds one result
  per group, so this order is strict and leaves no tie.
\<close>

theorem prioritize_sorted_by_severity_confidence:
  "sorted_wrt (ranked_before results) (deduplicate_and_prioritize results) \<and>
   distinct (map (first_seen results) (deduplicate_and_prioritize results))"
proof
  show "sorted_wrt (ranked_before results) (deduplicate_and_prioritize results)"
    by (rule ranked_deduplicate_and_prioritize)
  have "inj_on (first_seen results) (set (deduplicate_and_prioritize results))"
  proof (rule inj_onI)
    fix a b
    assume a: "a \<in> set (deduplicate_and_prioritize results)"
      and b: "b \<in> set (deduplicate_and_prioritize results)"
      and eq: "first_seen results a = first_seen results b"
    show "a = b"
    proof -
      from unique_results_first_seen_order [of results]
      have "sorted_wrt (<) (map (first_seen results) (map snd (unique_results results)))"
        by (simp only: sorted_wrt_map)
      then have "distinct (map (first_seen results) (map snd (unique_results results)))"
        by (simp only: strict_sorted_iff)
      then have "inj_on (first_seen results) (set (map snd (unique_results results)))"
        by (simp only: distinct_map)
      moreover from a b have "a \<in> set (map snd (unique_results results))"
        and "b \<in> set (map snd (unique_results results))"
        by (simp_all add: set_deduplicate_and_prioritize)
      ultimately show ?thesis
        using eq unfolding inj_on_def by blast
    qed
  qed
  moreover from distinct_result_key_output [of results]
  have "distinct (deduplicate_and_prioritize results)"
    by (simp only: distinct_map)
  ultimately show "distinct (map (first_seen results) (deduplicate_and_prioritize results))"
    by (simp add: distinct_map)
qed

theorem prioritize_sorted_by_severity_confidence_witness:
  "sorted_wrt
     (ranked_before
       [\<lparr>device_id = ''D1'', anomaly_type = PRESSURE_ANOMALY,
         severity = SeverityLevel.MEDIUM, confidence_score = 9 / 10, timestamp = 1,
         model_used = ''rule''\<rparr>,
        \<lparr>device_id = ''D2'', anomaly_type = TEMPERATURE_ANOMALY,
         severity = SeverityLevel.CRITICAL, confidence_score = 6 / 10, timestamp = 2,
         model_used = ''isolation_forest''\<rparr>])
     (deduplicate_and_prioritize
       [\<lparr>device_id = ''D1'', anomaly_type = PRESSURE_ANOMALY,
         severity = SeverityLevel.MEDIUM, confidence_score = 9 / 10, timestamp = 1,
         model_used = ''rule''\<rparr>,
        \<lparr>device_id = ''D2'', anomaly_type = TEMPERATURE_ANOMALY,
         severity = SeverityLevel.CRITICAL, confidence_score = 6 / 10, timestamp = 2,
         model_used = ''isolation_forest''\<rparr>])"
  using prioritize_sorted_by_severity_confidence
    [of "[\<lparr>device_id = ''D1'', anomaly_type = PRESSURE_ANOMALY,
           severity = SeverityLevel.MEDIUM, confidence_score = 9 / 10, timestamp = 1,
           model_used = ''rule''\<rparr>,
          \<lparr>device_id = ''D2'', anomaly_type = TEMPERATURE_ANOMALY,
           severity = SeverityLevel.CRITICAL, confidence_score = 6 / 10, timestamp = 2,
           model_used = ''isolation_forest''\<rparr>]"]
  by (rule conjunct1)

text \<open>
  The claim as stated fails: two results of different devices tie on severity and
  confidence. The one observed later and with the greater device id comes first
  because it came first in the input, and the same two results in the other order
  come out in the other order.
\<close>

theorem ranking_tie_counterexample:
  "deduplicate_and_prioritize
     [\<lparr>device_id = ''D2'', anomaly_type = TEMPERATURE_ANOMALY,
       severity = SeverityLevel.HIGH, confidence_score = 8 / 10, timestamp = 5,
       model_used = ''rule''\<rparr>,
      \<lparr>device_id = ''D1'', anomaly_type = PRESSURE_ANOMALY,
       severity = SeverityLevel.HIGH, confidence_score = 8 / 10, timestamp = 1,
       model_used = ''rule''\<rparr>]
   = [\<lparr>device_id = ''D2'', anomaly_type = TEMPERATURE_ANOMALY,
       severity = SeverityLevel.HIGH, confidence_score = 8 / 10, timestamp = 5,
       model_used = ''rule''\<rparr>,
      \<lparr>device_id = ''D1'', anomaly_type = PRESSURE_ANOMALY,
       severity = SeverityLevel.HIGH, confidence_score = 8 / 10, timestamp = 1,
       model_used = ''rule''\<rparr>] \<and>
   \<not> sorted_wrt spec_ranks_before
     (deduplicate_and_prioritize
       [\<lparr>device_id = ''D2'', anomaly_type = TEMPERATURE_ANOMALY,
         severity = SeverityLevel.HIGH, confidence_score = 8 / 10, timestamp = 5,
         model_used = ''rule''\<rparr>,
        \<lparr>device_id = ''D1'', anomaly_type = PRESSURE_ANOMALY,
         severity = SeverityLevel.HIGH, confidence_score = 8 / 10, timestamp = 1,
         model_used = ''rule''\<rparr>]) \<and>
   deduplicate_and_prioritize
     [\<lparr>device_id = ''D1'', anomaly_type = PRESSURE_ANOMALY,
       severity = SeverityLevel.HIGH, confidence_score = 8 / 10, timestamp = 1,
       model_used = ''rule''\<rparr>,
      \<lparr>device_id = ''D2'', anomaly_type = TEMPERATURE_ANOMALY,
       severity = SeverityLevel.HIGH, confidence_score = 8 / 10, timestamp = 5,
       model_used = ''rule''\<rparr>]
   = [\<lparr>device_id = ''D1'', anomaly_type = PRESSURE_ANOMALY,
       severity = SeverityLevel.HIGH, confidence_score = 8 / 10, timestamp = 1,
       model_used = ''rule''\<rparr>,
      \<lparr>device_id = ''D2'', anomaly_type = TEMPERATURE_ANOMALY,
       severity = SeverityLevel.HIGH, confidence_score = 8 / 10, timestamp = 5,
       model_used = ''rule''\<rparr>]"
  by (simp add: deduplicate_and_prioritize_def unique_results_def keep_result_def
      result_key_def spec_ranks_before_def)

end
